theory Spec2Isabelle
  imports Main "HOL-Library.Word"
begin

unbundle bit_operations_syntax

section \<open>The ASN.1 decoder of the recovery verifier\<close>

text \<open>
  The repository holds two revisions of \<^verbatim>\<open>asn1_decoder.c\<close>: a later one that keeps a
  count of the bytes that remain (below: the counter revision), and an earlier one
  that compares pointer differences with the total length (below: the pointer
  revision, every name suffixed \<open>_ptr\<close>).

  Memory is a list of bytes that the decoder only reads. A pointer \<^verbatim>\<open>uint8_t*\<close> is
  an offset into that list. The type \<^verbatim>\<open>size_t\<close> is \<open>'a word\<close>, so that
  \<^verbatim>\<open>sizeof(size_t)\<close> is \<open>LENGTH('a) div 8\<close>; \<^verbatim>\<open>int\<close> values (a byte or -1, a
  return code) are \<open>int\<close>, none of them can overflow. Dereferencing a pointer
  outside the memory is undefined behaviour in C: the model returns the error
  \<open>OutOfBounds\<close> there. Failure of \<^verbatim>\<open>calloc\<close> is not modelled.
\<close>

type_synonym byte = "8 word"

datatype error = OutOfBounds

definition deref :: "byte list \<Rightarrow> nat \<Rightarrow> error + byte" where
  "deref mem a = (if a < length mem then Inr (mem ! a) else Inl OutOfBounds)"

subsection \<open>The counter revision\<close>

text \<open>
  \<^verbatim>\<open>struct asn1_context { size_t length; uint8_t* p; int app_type; }\<close>:
  the field \<^verbatim>\<open>length\<close> is \<open>ctx_length\<close> here.
\<close>

record (overloaded) 'a asn1_context =
  ctx_length :: "'a word"
  p :: nat
  app_type :: int

definition asn1_context_new :: "nat \<Rightarrow> 'a::len word \<Rightarrow> 'a asn1_context" where
  "asn1_context_new buffer len = \<lparr>ctx_length = len, p = buffer, app_type = 0\<rparr>"

text \<open>Each operation returns its C return value and the context as it leaves it.\<close>

definition peek_byte ::
  "byte list \<Rightarrow> 'a::len asn1_context \<Rightarrow> error + (int \<times> 'a asn1_context)" where
  "peek_byte mem ctx =
     (if ctx_length ctx \<le> 0 then Inr (- 1, ctx)
      else case deref mem (p ctx) of
             Inl e \<Rightarrow> Inl e
           | Inr b \<Rightarrow> Inr (uint b, ctx))"

definition get_byte ::
  "byte list \<Rightarrow> 'a::len asn1_context \<Rightarrow> error + (int \<times> 'a asn1_context)" where
  "get_byte mem ctx =
     (if ctx_length ctx \<le> 0 then Inr (- 1, ctx)
      else case deref mem (p ctx) of
             Inl e \<Rightarrow> Inl e
           | Inr b \<Rightarrow> Inr (uint b, ctx\<lparr>p := p ctx + 1, ctx_length := ctx_length ctx - 1\<rparr>))"

definition skip_bytes :: "'a::len asn1_context \<Rightarrow> 'a word \<Rightarrow> int \<times> 'a asn1_context" where
  "skip_bytes ctx num_skip =
     (if ctx_length ctx < num_skip then (0, ctx)
      else (1, ctx\<lparr>p := p ctx + unat num_skip, ctx_length := ctx_length ctx - num_skip\<rparr>))"

text \<open>
  \<^verbatim>\<open>decode_length\<close> returns 1 and writes \<^verbatim>\<open>*out_len\<close>, or returns 0 and leaves it
  alone: \<open>Some len\<close> and \<open>None\<close> here. The loop
  \<^verbatim>\<open>for (int i = 0; i < num_octets; ++i)\<close> is a recursion on the number of rounds
  that are left.
\<close>

fun decode_length_loop ::
  "byte list \<Rightarrow> nat \<Rightarrow> 'a::len word \<Rightarrow> 'a asn1_context
     \<Rightarrow> error + ('a word option \<times> 'a asn1_context)" where
  "decode_length_loop mem 0 len ctx = Inr (Some len, ctx)"
| "decode_length_loop mem (Suc n) len ctx =
     (case get_byte mem ctx of
        Inl e \<Rightarrow> Inl e
      | Inr (byte, ctx') \<Rightarrow>
          if byte = - 1 then Inr (None, ctx')
          else decode_length_loop mem n (push_bit 8 len + word_of_int byte) ctx')"

definition decode_length ::
  "byte list \<Rightarrow> 'a::len asn1_context \<Rightarrow> error + ('a word option \<times> 'a asn1_context)" where
  "decode_length mem ctx =
     (case get_byte mem ctx of
        Inl e \<Rightarrow> Inl e
      | Inr (num_octets, ctx') \<Rightarrow>
          if num_octets = - 1 then Inr (None, ctx')
          else if num_octets AND 0x80 = 0x00 then Inr (Some (word_of_int num_octets), ctx')
          else if (word_of_int (num_octets AND 0x7F) :: 'a word) \<ge> word_of_nat (LENGTH('a) div 8)
               then Inr (None, ctx')
          else decode_length_loop mem (nat (num_octets AND 0x7F)) 0 ctx')"

text \<open>
  The extractors that return \<^verbatim>\<open>asn1_context_t*\<close> give \<open>None\<close> for \<^verbatim>\<open>NULL\<close> and
  \<open>Some child\<close> for a new context; those that return \<^verbatim>\<open>int\<close> with two output
  parameters give \<open>None\<close> for 0 and \<open>Some (pointer, length)\<close> for 1. (When
  \<^verbatim>\<open>asn1_oid_get\<close> returns 0 after a decoded length that is too large, the C code has
  already written \<^verbatim>\<open>*length\<close>; the model does not keep that value.)
\<close>

definition asn1_constructed_get ::
  "byte list \<Rightarrow> 'a::len asn1_context
     \<Rightarrow> error + ('a asn1_context option \<times> 'a asn1_context)" where
  "asn1_constructed_get mem ctx =
     (case get_byte mem ctx of
        Inl e \<Rightarrow> Inl e
      | Inr (type, ctx1) \<Rightarrow>
          if type = - 1 \<or> type AND 0xE0 \<noteq> 0xA0 then Inr (None, ctx1)
          else (case decode_length mem ctx1 of
                 Inl e \<Rightarrow> Inl e
               | Inr (None, ctx2) \<Rightarrow> Inr (None, ctx2)
               | Inr (Some len, ctx2) \<Rightarrow>
                   if len > ctx_length ctx2 then Inr (None, ctx2)
                   else Inr (Some ((asn1_context_new (p ctx2) len)\<lparr>app_type := type AND 0x1F\<rparr>),
                             ctx2)))"

definition asn1_constructed_type :: "'a::len asn1_context \<Rightarrow> int" where
  "asn1_constructed_type ctx = app_type ctx"

definition asn1_sequence_get ::
  "byte list \<Rightarrow> 'a::len asn1_context
     \<Rightarrow> error + ('a asn1_context option \<times> 'a asn1_context)" where
  "asn1_sequence_get mem ctx =
     (case get_byte mem ctx of
        Inl e \<Rightarrow> Inl e
      | Inr (byte, ctx1) \<Rightarrow>
          if byte AND 0x7F \<noteq> 0x30 then Inr (None, ctx1)
          else (case decode_length mem ctx1 of
                 Inl e \<Rightarrow> Inl e
               | Inr (None, ctx2) \<Rightarrow> Inr (None, ctx2)
               | Inr (Some len, ctx2) \<Rightarrow>
                   if len > ctx_length ctx2 then Inr (None, ctx2)
                   else Inr (Some (asn1_context_new (p ctx2) len), ctx2)))"

definition asn1_set_get ::
  "byte list \<Rightarrow> 'a::len asn1_context
     \<Rightarrow> error + ('a asn1_context option \<times> 'a asn1_context)" where
  "asn1_set_get mem ctx =
     (case get_byte mem ctx of
        Inl e \<Rightarrow> Inl e
      | Inr (byte, ctx1) \<Rightarrow>
          if byte AND 0x7F \<noteq> 0x31 then Inr (None, ctx1)
          else (case decode_length mem ctx1 of
                 Inl e \<Rightarrow> Inl e
               | Inr (None, ctx2) \<Rightarrow> Inr (None, ctx2)
               | Inr (Some len, ctx2) \<Rightarrow>
                   if len > ctx_length ctx2 then Inr (None, ctx2)
                   else Inr (Some (asn1_context_new (p ctx2) len), ctx2)))"

definition asn1_sequence_next ::
  "byte list \<Rightarrow> 'a::len asn1_context \<Rightarrow> error + (int \<times> 'a asn1_context)" where
  "asn1_sequence_next mem ctx =
     (case get_byte mem ctx of
        Inl e \<Rightarrow> Inl e
      | Inr (byte, ctx1) \<Rightarrow>
          if byte = - 1 then Inr (0, ctx1)
          else (case decode_length mem ctx1 of
                 Inl e \<Rightarrow> Inl e
               | Inr (None, ctx2) \<Rightarrow> Inr (0, ctx2)
               | Inr (Some len, ctx2) \<Rightarrow>
                   if fst (skip_bytes ctx2 len) = 0 then Inr (0, snd (skip_bytes ctx2 len))
                   else Inr (1, snd (skip_bytes ctx2 len))))"

definition asn1_oid_get ::
  "byte list \<Rightarrow> 'a::len asn1_context
     \<Rightarrow> error + ((nat \<times> 'a word) option \<times> 'a asn1_context)" where
  "asn1_oid_get mem ctx =
     (case get_byte mem ctx of
        Inl e \<Rightarrow> Inl e
      | Inr (byte, ctx1) \<Rightarrow>
          if byte \<noteq> 0x06 then Inr (None, ctx1)
          else (case decode_length mem ctx1 of
                 Inl e \<Rightarrow> Inl e
               | Inr (None, ctx2) \<Rightarrow> Inr (None, ctx2)
               | Inr (Some len, ctx2) \<Rightarrow>
                   if len > ctx_length ctx2 then Inr (None, ctx2)
                   else Inr (Some (p ctx2, len), ctx2)))"

definition asn1_octet_string_get ::
  "byte list \<Rightarrow> 'a::len asn1_context
     \<Rightarrow> error + ((nat \<times> 'a word) option \<times> 'a asn1_context)" where
  "asn1_octet_string_get mem ctx =
     (case get_byte mem ctx of
        Inl e \<Rightarrow> Inl e
      | Inr (byte, ctx1) \<Rightarrow>
          if byte \<noteq> 0x04 then Inr (None, ctx1)
          else (case decode_length mem ctx1 of
                 Inl e \<Rightarrow> Inl e
               | Inr (None, ctx2) \<Rightarrow> Inr (None, ctx2)
               | Inr (Some len, ctx2) \<Rightarrow>
                   if len > ctx_length ctx2 then Inr (None, ctx2)
                   else Inr (Some (p ctx2, len), ctx2)))"

text \<open>
  A context is well formed in a memory when the bytes it counts are there. The caller
  of \<^verbatim>\<open>asn1_context_new\<close> promises this for the root context.
\<close>

definition ctx_ok :: "byte list \<Rightarrow> 'a::len asn1_context \<Rightarrow> bool" where
  "ctx_ok mem ctx \<longleftrightarrow> p ctx + unat (ctx_length ctx) \<le> length mem"

subsection \<open>The pointer revision\<close>

text \<open>
  \<^verbatim>\<open>struct asn1_context { uint8_t* buffer; size_t length; int app_type; uint8_t* p; }\<close>:
  here \<^verbatim>\<open>length\<close> is the length of the whole buffer and stays as it is while
  \<^verbatim>\<open>p\<close> moves. No read is guarded by a bounds check.
\<close>

record (overloaded) 'a asn1_context_ptr =
  buffer_ptr :: nat
  length_ptr :: "'a word"
  app_type_ptr :: int
  p_ptr :: nat

definition asn1_context_new_ptr :: "nat \<Rightarrow> 'a::len word \<Rightarrow> 'a asn1_context_ptr" where
  "asn1_context_new_ptr buffer len =
     \<lparr>buffer_ptr = buffer, length_ptr = len, app_type_ptr = 0, p_ptr = buffer\<rparr>"

text \<open>
  The loop \<^verbatim>\<open>for (uint8_t* p = *start + 1; p != end; ++p)\<close> with
  \<^verbatim>\<open>end = *start + 1 + num_octets\<close>: a recursion on the number \<open>end - p\<close> of rounds
  that are left.
\<close>

fun decode_length_loop_ptr ::
  "byte list \<Rightarrow> nat \<Rightarrow> nat \<Rightarrow> 'a::len word \<Rightarrow> error + 'a word" where
  "decode_length_loop_ptr mem 0 q len = Inr len"
| "decode_length_loop_ptr mem (Suc n) q len =
     (case deref mem q of
        Inl e \<Rightarrow> Inl e
      | Inr b \<Rightarrow> decode_length_loop_ptr mem n (q + 1) (push_bit 8 len + word_of_int (uint b)))"

text \<open>
  \<^verbatim>\<open>decode_length(uint8_t** start, size_t* out_len)\<close> returns the length (\<open>None\<close> for
  the return value 0) and the new value of \<^verbatim>\<open>*start\<close>.
\<close>

definition decode_length_ptr ::
  "byte list \<Rightarrow> nat \<Rightarrow> error + ('a::len word option \<times> nat)" where
  "decode_length_ptr mem start =
     (case deref mem start of
        Inl e \<Rightarrow> Inl e
      | Inr b \<Rightarrow>
          (let num_octets = (word_of_int (uint b AND 0xFF) :: 'a word) in
           if num_octets AND 0x80 = 0x00 then Inr (Some num_octets, start + 1)
           else if num_octets AND 0x7F \<ge> word_of_nat (LENGTH('a) div 8) then Inr (None, start)
           else (case decode_length_loop_ptr mem (unat (num_octets AND 0x7F)) (start + 1) 0 of
                   Inl e \<Rightarrow> Inl e
                 | Inr len \<Rightarrow> Inr (Some len, start + 1 + unat (num_octets AND 0x7F)))))"

definition asn1_constructed_get_ptr ::
  "byte list \<Rightarrow> 'a::len asn1_context_ptr
     \<Rightarrow> error + ('a asn1_context_ptr option \<times> 'a asn1_context_ptr)" where
  "asn1_constructed_get_ptr mem ctx =
     (case deref mem (p_ptr ctx) of
        Inl e \<Rightarrow> Inl e
      | Inr b \<Rightarrow>
          if uint b AND 0xE0 \<noteq> 0xA0 then Inr (None, ctx)
          else (case decode_length_ptr mem (p_ptr ctx + 1) of
                  Inl e \<Rightarrow> Inl e
                | Inr (None, q) \<Rightarrow> Inr (None, ctx)
                | Inr (Some len, q) \<Rightarrow>
                    if word_of_int (int q - int (buffer_ptr ctx)) + len > length_ptr ctx
                    then Inr (None, ctx)
                    else Inr (Some ((asn1_context_new_ptr q len)
                                      \<lparr>app_type_ptr := uint b AND 0x1F\<rparr>), ctx)))"

definition asn1_sequence_get_ptr ::
  "byte list \<Rightarrow> 'a::len asn1_context_ptr
     \<Rightarrow> error + ('a asn1_context_ptr option \<times> 'a asn1_context_ptr)" where
  "asn1_sequence_get_ptr mem ctx =
     (case deref mem (p_ptr ctx) of
        Inl e \<Rightarrow> Inl e
      | Inr b \<Rightarrow>
          if uint b AND 0x7F \<noteq> 0x30 then Inr (None, ctx)
          else (case decode_length_ptr mem (p_ptr ctx + 1) of
                  Inl e \<Rightarrow> Inl e
                | Inr (None, q) \<Rightarrow> Inr (None, ctx)
                | Inr (Some len, q) \<Rightarrow>
                    if word_of_int (int q - int (buffer_ptr ctx)) + len > length_ptr ctx
                    then Inr (None, ctx)
                    else Inr (Some (asn1_context_new_ptr q len), ctx)))"

definition asn1_set_get_ptr ::
  "byte list \<Rightarrow> 'a::len asn1_context_ptr
     \<Rightarrow> error + ('a asn1_context_ptr option \<times> 'a asn1_context_ptr)" where
  "asn1_set_get_ptr mem ctx =
     (case deref mem (p_ptr ctx) of
        Inl e \<Rightarrow> Inl e
      | Inr b \<Rightarrow>
          if uint b AND 0x7F \<noteq> 0x31 then Inr (None, ctx)
          else (case decode_length_ptr mem (p_ptr ctx + 1) of
                  Inl e \<Rightarrow> Inl e
                | Inr (None, q) \<Rightarrow> Inr (None, ctx)
                | Inr (Some len, q) \<Rightarrow>
                    if word_of_int (int q - int (buffer_ptr ctx)) + len > length_ptr ctx
                    then Inr (None, ctx)
                    else Inr (Some (asn1_context_new_ptr q len), ctx)))"

definition asn1_sequence_next_ptr ::
  "byte list \<Rightarrow> 'a::len asn1_context_ptr \<Rightarrow> error + (int \<times> 'a asn1_context_ptr)" where
  "asn1_sequence_next_ptr mem seq =
     (case decode_length_ptr mem (p_ptr seq + 1) of
        Inl e \<Rightarrow> Inl e
      | Inr (None, q) \<Rightarrow> Inr (0, seq)
      | Inr (Some len, q) \<Rightarrow>
          if word_of_int (int q - int (buffer_ptr seq)) + len > length_ptr seq
          then Inr (0, seq)
          else Inr (1, seq\<lparr>p_ptr := q + unat len\<rparr>))"

definition asn1_oid_get_ptr ::
  "byte list \<Rightarrow> 'a::len asn1_context_ptr
     \<Rightarrow> error + ((nat \<times> 'a word) option \<times> 'a asn1_context_ptr)" where
  "asn1_oid_get_ptr mem ctx =
     (case deref mem (p_ptr ctx) of
        Inl e \<Rightarrow> Inl e
      | Inr b \<Rightarrow>
          if b \<noteq> 0x06 then Inr (None, ctx)
          else (case decode_length_ptr mem (p_ptr ctx + 1) of
                  Inl e \<Rightarrow> Inl e
                | Inr (None, oid) \<Rightarrow> Inr (None, ctx)
                | Inr (Some len, oid) \<Rightarrow> Inr (Some (oid, len), ctx)))"

definition asn1_octet_string_get_ptr ::
  "byte list \<Rightarrow> 'a::len asn1_context_ptr
     \<Rightarrow> error + ((nat \<times> 'a word) option \<times> 'a asn1_context_ptr)" where
  "asn1_octet_string_get_ptr mem ctx =
     (case deref mem (p_ptr ctx) of
        Inl e \<Rightarrow> Inl e
      | Inr b \<Rightarrow>
          if b \<noteq> 0x04 then Inr (None, ctx)
          else (case decode_length_ptr mem (p_ptr ctx + 1) of
                  Inl e \<Rightarrow> Inl e
                | Inr (None, octet_string) \<Rightarrow> Inr (None, ctx)
                | Inr (Some len, octet_string) \<Rightarrow> Inr (Some (octet_string, len), ctx)))"

text \<open>
  A context of the pointer revision and one of the counter revision that stand for
  the same view: same position, same end, same \<^verbatim>\<open>app_type\<close>.
\<close>

definition same_view :: "'a::len asn1_context_ptr \<Rightarrow> 'a asn1_context \<Rightarrow> bool" where
  "same_view ctx_ptr ctx \<longleftrightarrow>
     p_ptr ctx_ptr = p ctx
   \<and> buffer_ptr ctx_ptr \<le> p_ptr ctx_ptr
   \<and> (p_ptr ctx_ptr - buffer_ptr ctx_ptr) + unat (ctx_length ctx) = unat (length_ptr ctx_ptr)
   \<and> app_type_ptr ctx_ptr = app_type ctx"



subsection \<open>Definitions used to state the properties\<close>

text \<open>\<open>n\<close> consecutive calls of \<^verbatim>\<open>peek_byte\<close> on one context, with the values they return.\<close>

fun peek_times :: "nat \<Rightarrow> byte list \<Rightarrow> 'a::len asn1_context \<Rightarrow> error + (int list \<times> 'a asn1_context)" where
  "peek_times 0 mem ctx = Inr ([], ctx)"
| "peek_times (Suc n) mem ctx =
     (case peek_byte mem ctx of
        Inl e \<Rightarrow> Inl e
      | Inr (b, ctx') \<Rightarrow>
          (case peek_times n mem ctx' of
             Inl e \<Rightarrow> Inl e
           | Inr (bs, ctx'') \<Rightarrow> Inr (b # bs, ctx'')))"

text \<open>
  \<open>ctx_advanced ctx ctx'\<close>: the context \<open>ctx'\<close> is \<open>ctx\<close> after some bytes were
  consumed: the position has not moved back, the end (position plus remaining count)
  is the same, \<^verbatim>\<open>app_type\<close> is the same.
\<close>

definition ctx_advanced :: "'a::len asn1_context \<Rightarrow> 'a asn1_context \<Rightarrow> bool" where
  "ctx_advanced ctx ctx' \<longleftrightarrow>
     p ctx \<le> p ctx'
   \<and> p ctx' + unat (ctx_length ctx') = p ctx + unat (ctx_length ctx)
   \<and> app_type ctx' = app_type ctx"




text \<open>
  \<open>consumed k ctx\<close> is the context \<open>ctx\<close> with \<open>k\<close> more bytes consumed.
  \<open>length_octets_read mem ctx\<close> is the number of octets of a length field at the
  position of \<open>ctx\<close> that are there to be read: none in an empty context; the first
  octet alone when it is a short form or its count is refused; otherwise the first
  octet and as many of the \<open>N\<close> octets it announces as remain.
  \<open>header_octets_read tag_ok mem ctx\<close> adds the tag byte: none in an empty context,
  the tag byte alone when it fails the test \<open>tag_ok\<close>, else the tag byte and the
  octets of the length field.
\<close>

definition consumed :: "nat \<Rightarrow> 'a::len asn1_context \<Rightarrow> 'a asn1_context" where
  "consumed k ctx = ctx\<lparr>p := p ctx + k, ctx_length := ctx_length ctx - word_of_nat k\<rparr>"

definition length_octets_read :: "byte list \<Rightarrow> 'a::len asn1_context \<Rightarrow> nat" where
  "length_octets_read mem ctx =
     (if ctx_length ctx = 0 then 0
      else if uint (mem ! p ctx) AND 0x80 = 0 then 1
      else if (word_of_int (uint (mem ! p ctx) AND 0x7F) :: 'a word) \<ge> word_of_nat (LENGTH('a) div 8)
           then 1
      else 1 + min (nat (uint (mem ! p ctx) AND 0x7F)) (unat (ctx_length ctx) - 1))"

definition header_octets_read ::
  "(int \<Rightarrow> bool) \<Rightarrow> byte list \<Rightarrow> 'a::len asn1_context \<Rightarrow> nat" where
  "header_octets_read tag_ok mem ctx =
     (if ctx_length ctx = 0 then 0
      else if \<not> tag_ok (uint (mem ! p ctx)) then 1
      else 1 + length_octets_read mem (consumed 1 ctx))"

text \<open>
  The input of the iteration scenario, described by its bytes and not by the decoder.
  \<open>ctx_bytes mem ctx\<close> are the bytes that the context \<open>ctx\<close> spans.
  \<open>length_field w lf v\<close>: the octets \<open>lf\<close> are a definite-form length field for the
  length \<open>v\<close>, either one octet below 0x80 that is \<open>v\<close>, or an octet
  \<open>0x80 + k\<close> followed by \<open>k\<close> octets, \<open>1 \<le> k < w\<close>, that are \<open>v\<close> in base 256,
  most significant first (\<open>w\<close> is \<^verbatim>\<open>sizeof(size_t)\<close>, the decoder takes no more).
  \<open>octet_string_element lf payload\<close> are the bytes of an OCTET STRING element: the tag
  0x04, the length field, the payload.
\<close>

definition ctx_bytes :: "byte list \<Rightarrow> 'a::len asn1_context \<Rightarrow> byte list" where
  "ctx_bytes mem ctx = take (unat (ctx_length ctx)) (drop (p ctx) mem)"

definition big_endian :: "byte list \<Rightarrow> nat" where
  "big_endian bs = foldl (\<lambda>a b. a * 256 + unat b) 0 bs"

definition length_field :: "nat \<Rightarrow> byte list \<Rightarrow> nat \<Rightarrow> bool" where
  "length_field sizeof_size_t lf v \<longleftrightarrow>
     (case lf of
        [] \<Rightarrow> False
      | b # bs \<Rightarrow>
          if unat b < 128 then bs = [] \<and> v = unat b
          else bs \<noteq> [] \<and> unat b - 128 = length bs \<and> length bs < sizeof_size_t
               \<and> big_endian bs = v)"

definition octet_string_element :: "byte list \<Rightarrow> byte list \<Rightarrow> byte list" where
  "octet_string_element lf payload = 0x04 # lf @ payload"

subsection \<open>Auxiliary facts\<close>

lemma and_7F_bounds: "0 \<le> (x::int) AND 0x7F \<and> x AND 0x7F \<le> 127"
  by simp

lemma ctx_ok_deref:
  "ctx_ok mem ctx \<Longrightarrow> ctx_length ctx \<noteq> 0 \<Longrightarrow> deref mem (p ctx) = Inr (mem ! p ctx)"
proof -
  assume ok: "ctx_ok mem ctx" and ne: "ctx_length ctx \<noteq> 0"
  from ne have "unat (ctx_length ctx) \<noteq> 0" by (simp add: unat_eq_0)
  with ok have "p ctx < length mem" by (simp add: ctx_ok_def)
  then show ?thesis by (simp add: deref_def)
qed

lemma sizeof_size_t_le:
  fixes n :: int
  assumes "8 \<le> LENGTH('a::len)" "0 \<le> n" "n \<le> 127"
  shows "((word_of_nat (LENGTH('a) div 8) :: 'a word) \<le> word_of_int n) \<longleftrightarrow> LENGTH('a) div 8 \<le> nat n"
proof -
  have "(2::nat) ^ 8 \<le> 2 ^ LENGTH('a)" using assms(1) by (rule power_increasing) simp
  then have p8: "(256::nat) \<le> 2 ^ LENGTH('a)" by simp
  have "LENGTH('a) div 8 < 2 ^ LENGTH('a)"
    by (meson div_le_dividend le_less_trans less_exp)
  then have a: "unat (word_of_nat (LENGTH('a) div 8) :: 'a word) = LENGTH('a) div 8"
    by (simp add: unat_of_nat)
  have "nat n < 2 ^ LENGTH('a)" using assms p8 by linarith
  then have "unat (word_of_nat (nat n) :: 'a word) = nat n"
    by (simp add: unat_of_nat)
  moreover have "(word_of_nat (nat n) :: 'a word) = word_of_int n" using assms(2) by simp
  ultimately have b: "unat (word_of_int n :: 'a word) = nat n" by simp
  show ?thesis by (simp add: word_le_nat_alt a b)
qed

lemma get_byte_nonempty:
  "ctx_ok mem ctx \<Longrightarrow> ctx_length ctx \<noteq> 0 \<Longrightarrow>
   get_byte mem ctx = Inr (uint (mem ! p ctx), ctx\<lparr>p := p ctx + 1, ctx_length := ctx_length ctx - 1\<rparr>)"
  by (simp add: get_byte_def ctx_ok_deref)


lemma uint_byte_not_minus1: "uint (b :: byte) \<noteq> - 1"
  by (metis uint_ge_0 not_one_le_zero neg_0_le_iff_le zero_neq_neg_one order_antisym_conv minus_le_iff zero_le_one)

lemma ctx_advanced_refl: "ctx_advanced ctx ctx"
  by (simp add: ctx_advanced_def)

lemma ctx_advanced_trans:
  "ctx_advanced a b \<Longrightarrow> ctx_advanced b c \<Longrightarrow> ctx_advanced a c"
  by (simp add: ctx_advanced_def)

lemma get_byte_Inr:
  assumes "get_byte mem ctx = Inr (b, ctx')"
  shows "(ctx_length ctx = 0 \<and> b = - 1 \<and> ctx' = ctx)
       \<or> (ctx_length ctx \<noteq> 0 \<and> p ctx < length mem \<and> b = uint (mem ! p ctx) \<and> b \<noteq> - 1
          \<and> ctx' = ctx\<lparr>p := p ctx + 1, ctx_length := ctx_length ctx - 1\<rparr>)"
  using assms
  by (auto simp: get_byte_def deref_def uint_byte_not_minus1 split: if_splits)

lemma ctx_advanced_one:
  "ctx_length ctx \<noteq> 0 \<Longrightarrow>
   ctx_advanced ctx (ctx\<lparr>p := p ctx + 1, ctx_length := ctx_length ctx - 1\<rparr>)"
  by (simp add: ctx_advanced_def unat_minus_one unat_eq_0 Suc_leI le_neq_implies_less)

lemma get_byte_advanced:
  "get_byte mem ctx = Inr (b, ctx') \<Longrightarrow> ctx_advanced ctx ctx'"
  using get_byte_Inr [of mem ctx b ctx'] ctx_advanced_one [of ctx]
  by (auto simp: ctx_advanced_refl)

lemma decode_length_loop_advanced:
  "decode_length_loop mem n len ctx = Inr (r, ctx') \<Longrightarrow> ctx_advanced ctx ctx'"
proof (induction n arbitrary: len ctx)
  case 0
  then show ?case by (simp add: ctx_advanced_refl)
next
  case (Suc n)
  then show ?case
    by (auto split: sum.splits prod.splits if_splits
             intro: ctx_advanced_trans get_byte_advanced)
qed

lemma decode_length_advanced:
  "decode_length mem ctx = Inr (r, ctx') \<Longrightarrow> ctx_advanced ctx ctx'"
  by (auto simp: decode_length_def split: sum.splits prod.splits if_splits
           intro: ctx_advanced_trans get_byte_advanced decode_length_loop_advanced)

lemma skip_bytes_advanced: "ctx_advanced ctx (snd (skip_bytes ctx n))"
  by (auto simp: skip_bytes_def ctx_advanced_def unat_sub word_le_nat_alt word_less_nat_alt not_less)


lemma extractor_tail_advanced:
  assumes "get_byte mem ctx = Inr (b, ctx1)" and "ctx_advanced ctx1 ctx'"
  shows "ctx_advanced ctx ctx' \<and> (ctx' = ctx \<longleftrightarrow> ctx_length ctx = 0)"
proof -
  have adv: "ctx_advanced ctx ctx'"
    using assms get_byte_advanced ctx_advanced_trans by blast
  show ?thesis
  proof (cases "ctx_length ctx = 0")
    case True
    with adv have "p ctx' = p ctx" "unat (ctx_length ctx') = 0" "app_type ctx' = app_type ctx"
      by (auto simp: ctx_advanced_def)
    then have "ctx' = ctx" using True by (simp add: unat_eq_0)
    with adv True show ?thesis by simp
  next
    case False
    with assms(1) have "p ctx1 = p ctx + 1" using get_byte_Inr [of mem ctx b ctx1] by auto
    with assms(2) have "p ctx < p ctx'" by (simp add: ctx_advanced_def)
    then have "ctx' \<noteq> ctx" by auto
    with adv False show ?thesis by simp
  qed
qed

lemma constructed_get_tail:
  "asn1_constructed_get mem ctx = Inr (r, ctx') \<Longrightarrow>
   \<exists>b ctx1. get_byte mem ctx = Inr (b, ctx1) \<and> ctx_advanced ctx1 ctx'"
  by (auto simp: asn1_constructed_get_def ctx_advanced_refl
           split: sum.splits prod.splits option.splits if_splits
           dest: decode_length_advanced)

lemma sequence_get_tail:
  "asn1_sequence_get mem ctx = Inr (r, ctx') \<Longrightarrow>
   \<exists>b ctx1. get_byte mem ctx = Inr (b, ctx1) \<and> ctx_advanced ctx1 ctx'"
  by (auto simp: asn1_sequence_get_def ctx_advanced_refl
           split: sum.splits prod.splits option.splits if_splits
           dest: decode_length_advanced)

lemma set_get_tail:
  "asn1_set_get mem ctx = Inr (r, ctx') \<Longrightarrow>
   \<exists>b ctx1. get_byte mem ctx = Inr (b, ctx1) \<and> ctx_advanced ctx1 ctx'"
  by (auto simp: asn1_set_get_def ctx_advanced_refl
           split: sum.splits prod.splits option.splits if_splits
           dest: decode_length_advanced)

lemma oid_get_tail:
  "asn1_oid_get mem ctx = Inr (r, ctx') \<Longrightarrow>
   \<exists>b ctx1. get_byte mem ctx = Inr (b, ctx1) \<and> ctx_advanced ctx1 ctx'"
  by (auto simp: asn1_oid_get_def ctx_advanced_refl
           split: sum.splits prod.splits option.splits if_splits
           dest: decode_length_advanced)

lemma octet_string_get_tail:
  "asn1_octet_string_get mem ctx = Inr (r, ctx') \<Longrightarrow>
   \<exists>b ctx1. get_byte mem ctx = Inr (b, ctx1) \<and> ctx_advanced ctx1 ctx'"
  by (auto simp: asn1_octet_string_get_def ctx_advanced_refl
           split: sum.splits prod.splits option.splits if_splits
           dest: decode_length_advanced)

lemma sequence_next_tail:
  "asn1_sequence_next mem ctx = Inr (r, ctx') \<Longrightarrow>
   \<exists>b ctx1. get_byte mem ctx = Inr (b, ctx1) \<and> ctx_advanced ctx1 ctx'"
  by (auto simp: asn1_sequence_next_def ctx_advanced_refl
           split: sum.splits prod.splits option.splits if_splits
           dest: decode_length_advanced
           intro: ctx_advanced_trans skip_bytes_advanced)

lemma child_span:
  assumes "ctx_advanced ctx ctx2" and "\<not> ctx_length ctx2 < len"
  shows "p ctx \<le> p ctx2 \<and> p ctx2 + unat len \<le> p ctx + unat (ctx_length ctx)"
  using assms by (auto simp: ctx_advanced_def word_less_nat_alt)

lemma constructed_get_Some:
  assumes "asn1_constructed_get mem ctx = Inr (Some child, ctx')"
  shows "ctx_advanced ctx ctx' \<and> p child = p ctx' \<and> \<not> ctx_length ctx' < ctx_length child"
proof -
  from assms obtain b ctx1 where g: "get_byte mem ctx = Inr (b, ctx1)"
    by (auto simp: asn1_constructed_get_def split: sum.splits)
  with assms have "ctx_advanced ctx1 ctx' \<and> p child = p ctx' \<and> \<not> ctx_length ctx' < ctx_length child"
    by (auto simp: asn1_constructed_get_def asn1_context_new_def
             split: sum.splits prod.splits option.splits if_splits
             dest: decode_length_advanced)
  with g show ?thesis using get_byte_advanced ctx_advanced_trans by blast
qed

lemma sequence_get_Some:
  assumes "asn1_sequence_get mem ctx = Inr (Some child, ctx')"
  shows "ctx_advanced ctx ctx' \<and> p child = p ctx' \<and> \<not> ctx_length ctx' < ctx_length child"
proof -
  from assms obtain b ctx1 where g: "get_byte mem ctx = Inr (b, ctx1)"
    by (auto simp: asn1_sequence_get_def split: sum.splits)
  with assms have "ctx_advanced ctx1 ctx' \<and> p child = p ctx' \<and> \<not> ctx_length ctx' < ctx_length child"
    by (auto simp: asn1_sequence_get_def asn1_context_new_def
             split: sum.splits prod.splits option.splits if_splits
             dest: decode_length_advanced)
  with g show ?thesis using get_byte_advanced ctx_advanced_trans by blast
qed

lemma set_get_Some:
  assumes "asn1_set_get mem ctx = Inr (Some child, ctx')"
  shows "ctx_advanced ctx ctx' \<and> p child = p ctx' \<and> \<not> ctx_length ctx' < ctx_length child"
proof -
  from assms obtain b ctx1 where g: "get_byte mem ctx = Inr (b, ctx1)"
    by (auto simp: asn1_set_get_def split: sum.splits)
  with assms have "ctx_advanced ctx1 ctx' \<and> p child = p ctx' \<and> \<not> ctx_length ctx' < ctx_length child"
    by (auto simp: asn1_set_get_def asn1_context_new_def
             split: sum.splits prod.splits option.splits if_splits
             dest: decode_length_advanced)
  with g show ?thesis using get_byte_advanced ctx_advanced_trans by blast
qed




lemma decode_length_loop_sim:
  "decode_length_loop mem n acc ctx = Inr (Some len, ctx') \<Longrightarrow>
   decode_length_loop_ptr mem n (p ctx) acc = Inr len \<and> p ctx' = p ctx + n"
proof (induction n arbitrary: acc ctx)
  case 0
  then show ?case by simp
next
  case (Suc n)
  from Suc.prems obtain b ctx1 where g: "get_byte mem ctx = Inr (b, ctx1)"
    by (auto split: sum.splits)
  with Suc.prems have nb: "b \<noteq> - 1"
    and rest: "decode_length_loop mem n (push_bit 8 acc + word_of_int b) ctx1 = Inr (Some len, ctx')"
    by (auto split: if_splits)
  from g nb have d: "deref mem (p ctx) = Inr (mem ! p ctx)" and b: "b = uint (mem ! p ctx)"
    and p1: "p ctx1 = p ctx + 1"
    using get_byte_Inr [OF g] by (auto simp: deref_def)
  from Suc.IH [OF rest] show ?case by (simp add: d b p1)
qed

lemma uint_byte_and_FF: "uint (b :: byte) AND 0xFF = uint b"
proof -
  have "(0xFF :: int) = mask 8" by (simp add: mask_eq_exp_minus_1)
  then have "uint b AND 0xFF = take_bit 8 (uint b)" by (simp add: take_bit_eq_mask)
  also have "\<dots> = uint b"
    using uint_lt2p [of b] by (simp add: take_bit_int_eq_self)
  finally show ?thesis .
qed

lemma word_and_0x80: "(word_of_int x :: 'a::len word) AND 0x80 = word_of_int (x AND 0x80)"
  by (metis of_int_numeral of_int_and_eq)

lemma word_and_0x7F: "(word_of_int x :: 'a::len word) AND 0x7F = word_of_int (x AND 0x7F)"
  by (metis of_int_numeral of_int_and_eq)

lemma uint_small:
  fixes n :: int
  assumes "8 \<le> LENGTH('a::len)" "0 \<le> n" "n \<le> 255"
  shows "uint (word_of_int n :: 'a word) = n"
proof -
  have "(2::int) ^ 8 \<le> 2 ^ LENGTH('a)" using assms(1) by (rule power_increasing) simp
  then have "n < 2 ^ LENGTH('a)" using assms(3) by simp
  then show ?thesis using assms(2) by (simp add: word_of_int_inverse)
qed

lemma word_small_eq_0:
  fixes n :: int
  assumes "8 \<le> LENGTH('a::len)" "0 \<le> n" "n \<le> 255"
  shows "(word_of_int n :: 'a word) = 0 \<longleftrightarrow> n = 0"
  using uint_small [OF assms] by (metis uint_0_eq word_of_int_0)

lemma unat_small:
  fixes n :: int
  assumes "8 \<le> LENGTH('a::len)" "0 \<le> n" "n \<le> 255"
  shows "unat (word_of_int n :: 'a word) = nat n"
  using uint_small [OF assms] by (simp add: unat_eq_nat_uint)

lemma decode_length_ptr_alt:
  assumes "8 \<le> LENGTH('a::len)"
  shows "(decode_length_ptr mem start :: error + ('a word option \<times> nat)) =
     (case deref mem start of
        Inl e \<Rightarrow> Inl e
      | Inr b \<Rightarrow>
          if uint b AND 0x80 = 0 then Inr (Some (word_of_int (uint b)), start + 1)
          else if (word_of_int (uint b AND 0x7F) :: 'a word) \<ge> word_of_nat (LENGTH('a) div 8)
               then Inr (None, start)
          else (case decode_length_loop_ptr mem (nat (uint b AND 0x7F)) (start + 1) 0 of
                   Inl e \<Rightarrow> Inl e
                 | Inr len \<Rightarrow> Inr (Some len, start + 1 + nat (uint b AND 0x7F))))"
proof (cases "deref mem start")
  case (Inl e)
  then show ?thesis by (simp add: decode_length_ptr_def)
next
  case (Inr b)
  have c: "(ucast b :: 'a word) = word_of_int (uint b)" by simp
  have "0 \<le> uint b AND 0x80" "uint b AND 0x80 \<le> 255" "0 \<le> uint b AND 0x7F" "uint b AND 0x7F \<le> 255"
    by (simp_all add: AND_upper2')
  then have z: "((ucast b :: 'a word) AND 0x80 = 0) \<longleftrightarrow> uint b AND 0x80 = 0"
    and u: "unat ((ucast b :: 'a word) AND 0x7F) = nat (uint b AND 0x7F)"
    and v: "(ucast b :: 'a word) AND 0x7F = word_of_int (uint b AND 0x7F)"
    unfolding c word_and_0x80 word_and_0x7F
    using word_small_eq_0 [OF assms, of "uint b AND 0x80"] unat_small [OF assms, of "uint b AND 0x7F"]
    by blast+
  show ?thesis
    using Inr z u v
    by (simp add: decode_length_ptr_def uint_byte_and_FF Let_def split: sum.splits)
qed

lemma decode_length_sim:
  fixes ctx :: "'a::len asn1_context"
  assumes "8 \<le> LENGTH('a)" and "decode_length mem ctx = Inr (Some len, ctx')"
  shows "decode_length_ptr mem (p ctx) = Inr (Some len, p ctx')"
proof -
  from assms(2) obtain b ctx1 where g: "get_byte mem ctx = Inr (b, ctx1)"
    by (auto simp: decode_length_def split: sum.splits)
  with assms(2) have nb: "b \<noteq> - 1" by (auto simp: decode_length_def split: if_splits)
  from g nb have d: "deref mem (p ctx) = Inr (mem ! p ctx)" and b: "b = uint (mem ! p ctx)"
    and p1: "p ctx1 = p ctx + 1"
    using get_byte_Inr [OF g] by (auto simp: deref_def)
  show ?thesis
  proof (cases "b AND 0x80 = 0")
    case True
    with assms(2) g nb have "len = word_of_int b" "ctx' = ctx1"
      by (auto simp: decode_length_def)
    with True show ?thesis
      by (simp add: decode_length_ptr_alt [OF assms(1)] d b p1)
  next
    case False
    with assms(2) g nb have
      small: "\<not> (word_of_nat (LENGTH('a) div 8) :: 'a word) \<le> word_of_int (b AND 0x7F)" and
      loop: "decode_length_loop mem (nat (b AND 0x7F)) 0 ctx1 = Inr (Some len, ctx')"
      by (auto simp: decode_length_def split: if_splits)
    from decode_length_loop_sim [OF loop] False small show ?thesis
      by (simp add: decode_length_ptr_alt [OF assms(1)] d b [symmetric] p1)
  qed
qed


lemma bounds_check_passes:
  fixes ctx :: "'a::len asn1_context"
  assumes sv: "same_view ctx_ptr ctx" and adv: "ctx_advanced ctx ctx2"
    and le: "\<not> ctx_length ctx2 < len"
  shows "\<not> length_ptr ctx_ptr < word_of_int (int (p ctx2) - int (buffer_ptr ctx_ptr)) + len"
    and "buffer_ptr ctx_ptr \<le> p ctx2"
    and "(p ctx2 - buffer_ptr ctx_ptr) + unat (ctx_length ctx2) = unat (length_ptr ctx_ptr)"
proof -
  let ?k = "p ctx2 - buffer_ptr ctx_ptr"
  from sv adv show b: "buffer_ptr ctx_ptr \<le> p ctx2"
    by (simp add: same_view_def ctx_advanced_def)
  from sv adv show e: "?k + unat (ctx_length ctx2) = unat (length_ptr ctx_ptr)"
    by (auto simp: same_view_def ctx_advanced_def)
  from le have l: "unat len \<le> unat (ctx_length ctx2)"
    by (simp add: word_less_nat_alt)
  have lt: "unat (length_ptr ctx_ptr) < 2 ^ LENGTH('a)" by (rule unsigned_less)
  from b have w: "(word_of_int (int (p ctx2) - int (buffer_ptr ctx_ptr)) :: 'a word) = word_of_nat ?k"
    by simp
  from e lt have "?k < 2 ^ LENGTH('a)" by linarith
  then have uk: "unat (word_of_nat ?k :: 'a word) = ?k" by (simp add: unat_of_nat)
  from e l lt have "?k + unat len < 2 ^ LENGTH('a)" by linarith
  then have "unat (word_of_nat ?k :: 'a word) + unat len < 2 ^ LENGTH('a)"
    by (simp only: uk)
  then have "unat (word_of_nat ?k + len) = ?k + unat len"
    by (simp add: unat_add_lem [THEN iffD1] uk)
  with e l have "\<not> unat (length_ptr ctx_ptr) < unat (word_of_nat ?k + len)"
    by linarith
  then show "\<not> length_ptr ctx_ptr < word_of_int (int (p ctx2) - int (buffer_ptr ctx_ptr)) + len"
    unfolding w word_less_nat_alt .
qed

lemma header_sim:
  fixes ctx :: "'a::len asn1_context"
  assumes w: "8 \<le> LENGTH('a)" and sv: "same_view ctx_ptr ctx"
    and g: "get_byte mem ctx = Inr (b, ctx1)" and nb: "b \<noteq> - 1"
    and d: "decode_length mem ctx1 = Inr (Some len, ctx2)"
  shows "deref mem (p_ptr ctx_ptr) = Inr (mem ! p ctx) \<and> b = uint (mem ! p ctx)
       \<and> decode_length_ptr mem (Suc (p_ptr ctx_ptr)) = Inr (Some len, p ctx2)
       \<and> ctx_advanced ctx ctx2"
proof -
  from g nb have "deref mem (p ctx) = Inr (mem ! p ctx)" and b: "b = uint (mem ! p ctx)"
    and p1: "p ctx1 = p ctx + 1"
    using get_byte_Inr [OF g] by (auto simp: deref_def)
  moreover from sv have pp: "p_ptr ctx_ptr = p ctx" by (simp add: same_view_def)
  moreover from decode_length_sim [OF w d] p1 pp
  have "decode_length_ptr mem (Suc (p_ptr ctx_ptr)) = Inr (Some len, p ctx2)" by simp
  moreover have "ctx_advanced ctx ctx2"
    using get_byte_advanced [OF g] decode_length_advanced [OF d] by (rule ctx_advanced_trans)
  ultimately show ?thesis by simp
qed

lemma constructed_get_sim:
  fixes ctx :: "'a::len asn1_context"
  assumes w: "8 \<le> LENGTH('a)" and sv: "same_view ctx_ptr ctx"
    and r: "asn1_constructed_get mem ctx = Inr (Some child, ctx')"
  shows "asn1_constructed_get_ptr mem ctx_ptr
           = Inr (Some ((asn1_context_new_ptr (p child) (ctx_length child))
                          \<lparr>app_type_ptr := app_type child\<rparr>), ctx_ptr)"
proof -
  from r obtain b ctx1 len where g: "get_byte mem ctx = Inr (b, ctx1)"
    and tag: "b AND 0xE0 = 0xA0"
    and d: "decode_length mem ctx1 = Inr (Some len, ctx')" and le: "\<not> ctx_length ctx' < len"
    and child: "child = (asn1_context_new (p ctx') len)\<lparr>app_type := b AND 0x1F\<rparr>"
    by (auto simp: asn1_constructed_get_def split: sum.splits prod.splits option.splits if_splits)
  from tag have nb: "b \<noteq> - 1" by auto
  from header_sim [OF w sv g nb d] have
    h1: "deref mem (p_ptr ctx_ptr) = Inr (mem ! p ctx)" and h2: "b = uint (mem ! p ctx)"
    and h3: "decode_length_ptr mem (Suc (p_ptr ctx_ptr)) = Inr (Some len, p ctx')"
    and adv: "ctx_advanced ctx ctx'"
    by simp_all
  note c = bounds_check_passes(1) [OF sv adv le]
  show ?thesis
    using tag c
    by (simp add: asn1_constructed_get_ptr_def h1 h2 [symmetric] h3 child asn1_context_new_def
        asn1_context_new_ptr_def)
qed

lemma sequence_get_sim:
  fixes ctx :: "'a::len asn1_context"
  assumes w: "8 \<le> LENGTH('a)" and sv: "same_view ctx_ptr ctx"
    and r: "asn1_sequence_get mem ctx = Inr (Some child, ctx')"
  shows "asn1_sequence_get_ptr mem ctx_ptr
           = Inr (Some ((asn1_context_new_ptr (p child) (ctx_length child))
                          \<lparr>app_type_ptr := app_type child\<rparr>), ctx_ptr)"
proof -
  from r obtain b ctx1 len where g: "get_byte mem ctx = Inr (b, ctx1)"
    and tag: "b AND 0x7F = 0x30"
    and d: "decode_length mem ctx1 = Inr (Some len, ctx')" and le: "\<not> ctx_length ctx' < len"
    and child: "child = asn1_context_new (p ctx') len"
    by (auto simp: asn1_sequence_get_def split: sum.splits prod.splits option.splits if_splits)
  from tag have nb: "b \<noteq> - 1" by auto
  from header_sim [OF w sv g nb d] have
    h1: "deref mem (p_ptr ctx_ptr) = Inr (mem ! p ctx)" and h2: "b = uint (mem ! p ctx)"
    and h3: "decode_length_ptr mem (Suc (p_ptr ctx_ptr)) = Inr (Some len, p ctx')"
    and adv: "ctx_advanced ctx ctx'"
    by simp_all
  note c = bounds_check_passes(1) [OF sv adv le]
  show ?thesis
    using tag c
    by (simp add: asn1_sequence_get_ptr_def h1 h2 [symmetric] h3 child asn1_context_new_def
        asn1_context_new_ptr_def)
qed

lemma set_get_sim:
  fixes ctx :: "'a::len asn1_context"
  assumes w: "8 \<le> LENGTH('a)" and sv: "same_view ctx_ptr ctx"
    and r: "asn1_set_get mem ctx = Inr (Some child, ctx')"
  shows "asn1_set_get_ptr mem ctx_ptr
           = Inr (Some ((asn1_context_new_ptr (p child) (ctx_length child))
                          \<lparr>app_type_ptr := app_type child\<rparr>), ctx_ptr)"
proof -
  from r obtain b ctx1 len where g: "get_byte mem ctx = Inr (b, ctx1)"
    and tag: "b AND 0x7F = 0x31"
    and d: "decode_length mem ctx1 = Inr (Some len, ctx')" and le: "\<not> ctx_length ctx' < len"
    and child: "child = asn1_context_new (p ctx') len"
    by (auto simp: asn1_set_get_def split: sum.splits prod.splits option.splits if_splits)
  from tag have nb: "b \<noteq> - 1" by auto
  from header_sim [OF w sv g nb d] have
    h1: "deref mem (p_ptr ctx_ptr) = Inr (mem ! p ctx)" and h2: "b = uint (mem ! p ctx)"
    and h3: "decode_length_ptr mem (Suc (p_ptr ctx_ptr)) = Inr (Some len, p ctx')"
    and adv: "ctx_advanced ctx ctx'"
    by simp_all
  note c = bounds_check_passes(1) [OF sv adv le]
  show ?thesis
    using tag c
    by (simp add: asn1_set_get_ptr_def h1 h2 [symmetric] h3 child asn1_context_new_def
        asn1_context_new_ptr_def)
qed

lemma same_view_child:
  "same_view ((asn1_context_new_ptr (p child) (ctx_length child))\<lparr>app_type_ptr := app_type child\<rparr>)
     child"
  by (simp add: same_view_def asn1_context_new_ptr_def)

lemma oid_get_sim:
  fixes ctx :: "'a::len asn1_context"
  assumes w: "8 \<le> LENGTH('a)" and sv: "same_view ctx_ptr ctx"
    and r: "asn1_oid_get mem ctx = Inr (Some v, ctx')"
  shows "asn1_oid_get_ptr mem ctx_ptr = Inr (Some v, ctx_ptr)"
proof -
  from r obtain b ctx1 len where g: "get_byte mem ctx = Inr (b, ctx1)"
    and tag: "b = 0x06"
    and d: "decode_length mem ctx1 = Inr (Some len, ctx')"
    and v: "v = (p ctx', len)"
    by (auto simp: asn1_oid_get_def split: sum.splits prod.splits option.splits if_splits)
  from tag have nb: "b \<noteq> - 1" by auto
  from header_sim [OF w sv g nb d] have
    h1: "deref mem (p_ptr ctx_ptr) = Inr (mem ! p ctx)" and h2: "b = uint (mem ! p ctx)"
    and h3: "decode_length_ptr mem (Suc (p_ptr ctx_ptr)) = Inr (Some len, p ctx')"
    by simp_all
  have "mem ! p ctx = word_of_int (uint (mem ! p ctx))" by simp
  also from h2 tag have "\<dots> = word_of_int 0x06" by simp
  finally have "mem ! p ctx = 0x06" by simp
  then show ?thesis
    by (simp add: asn1_oid_get_ptr_def h1 h3 v)
qed

lemma sequence_next_success:
  assumes r: "asn1_sequence_next mem ctx = Inr (1, ctx')"
  shows "\<exists>b ctx1 len ctx2. get_byte mem ctx = Inr (b, ctx1) \<and> b \<noteq> - 1
       \<and> decode_length mem ctx1 = Inr (Some len, ctx2) \<and> \<not> ctx_length ctx2 < len
       \<and> ctx' = ctx2\<lparr>p := p ctx2 + unat len, ctx_length := ctx_length ctx2 - len\<rparr>"
proof -
  from r obtain b ctx1 where g: "get_byte mem ctx = Inr (b, ctx1)"
    by (auto simp: asn1_sequence_next_def split: sum.splits)
  from r g have nb: "b \<noteq> - 1"
    by (auto simp: asn1_sequence_next_def split: if_splits)
  from r g nb obtain len ctx2 where d: "decode_length mem ctx1 = Inr (Some len, ctx2)"
    by (auto simp: asn1_sequence_next_def split: sum.splits option.splits)
  from r g nb d have s: "fst (skip_bytes ctx2 len) \<noteq> 0" and c: "ctx' = snd (skip_bytes ctx2 len)"
    by (auto simp: asn1_sequence_next_def split: if_splits)
  from s have le: "\<not> ctx_length ctx2 < len"
    by (auto simp: skip_bytes_def split: if_splits)
  with c have "ctx' = ctx2\<lparr>p := p ctx2 + unat len, ctx_length := ctx_length ctx2 - len\<rparr>"
    by (simp add: skip_bytes_def)
  with g nb d le show ?thesis by blast
qed


lemma sequence_next_sim:
  fixes ctx :: "'a::len asn1_context"
  assumes w: "8 \<le> LENGTH('a)" and sv: "same_view ctx_ptr ctx"
    and r: "asn1_sequence_next mem ctx = Inr (1, ctx')"
  shows "asn1_sequence_next_ptr mem ctx_ptr = Inr (1, ctx_ptr\<lparr>p_ptr := p ctx'\<rparr>)
       \<and> same_view (ctx_ptr\<lparr>p_ptr := p ctx'\<rparr>) ctx'"
proof -
  from sequence_next_success [OF r] obtain b ctx1 len ctx2 where
    g: "get_byte mem ctx = Inr (b, ctx1)" and nb: "b \<noteq> - 1"
    and d: "decode_length mem ctx1 = Inr (Some len, ctx2)" and le: "\<not> ctx_length ctx2 < len"
    and c': "ctx' = ctx2\<lparr>p := p ctx2 + unat len, ctx_length := ctx_length ctx2 - len\<rparr>"
    by blast
  from header_sim [OF w sv g nb d] have
    h3: "decode_length_ptr mem (Suc (p_ptr ctx_ptr)) = Inr (Some len, p ctx2)"
    and adv: "ctx_advanced ctx ctx2"
    by simp_all
  note c = bounds_check_passes [OF sv adv le]
  from le have l: "unat len \<le> unat (ctx_length ctx2)" by (simp add: word_less_nat_alt)
  then have u: "unat (ctx_length ctx2 - len) = unat (ctx_length ctx2) - unat len"
    by (simp add: unat_sub word_le_nat_alt)
  have pc: "p ctx' = p ctx2 + unat len" and lc: "ctx_length ctx' = ctx_length ctx2 - len"
    and ac: "app_type ctx' = app_type ctx2"
    by (simp_all add: c')
  have n: "asn1_sequence_next_ptr mem ctx_ptr = Inr (1, ctx_ptr\<lparr>p_ptr := p ctx'\<rparr>)"
    using c(1) by (simp add: asn1_sequence_next_ptr_def h3 pc)
  have a: "app_type_ptr ctx_ptr = app_type ctx'"
    using sv adv by (simp add: same_view_def ctx_advanced_def ac)
  have b1: "buffer_ptr ctx_ptr \<le> p ctx'" using c(2) pc by linarith
  have "(p ctx' - buffer_ptr ctx_ptr) + unat (ctx_length ctx') = unat (length_ptr ctx_ptr)"
    unfolding pc lc u using c(2) c(3) l by linarith
  with a b1 have "same_view (ctx_ptr\<lparr>p_ptr := p ctx'\<rparr>) ctx'"
    by (simp add: same_view_def)
  with n show ?thesis by simp
qed

lemma octet_string_get_sim:
  fixes ctx :: "'a::len asn1_context"
  assumes w: "8 \<le> LENGTH('a)" and sv: "same_view ctx_ptr ctx"
    and r: "asn1_octet_string_get mem ctx = Inr (Some v, ctx')"
  shows "asn1_octet_string_get_ptr mem ctx_ptr = Inr (Some v, ctx_ptr)"
proof -
  from r obtain b ctx1 len where g: "get_byte mem ctx = Inr (b, ctx1)"
    and tag: "b = 0x04"
    and d: "decode_length mem ctx1 = Inr (Some len, ctx')"
    and v: "v = (p ctx', len)"
    by (auto simp: asn1_octet_string_get_def split: sum.splits prod.splits option.splits if_splits)
  from tag have nb: "b \<noteq> - 1" by auto
  from header_sim [OF w sv g nb d] have
    h1: "deref mem (p_ptr ctx_ptr) = Inr (mem ! p ctx)" and h2: "b = uint (mem ! p ctx)"
    and h3: "decode_length_ptr mem (Suc (p_ptr ctx_ptr)) = Inr (Some len, p ctx')"
    by simp_all
  have "mem ! p ctx = word_of_int (uint (mem ! p ctx))" by simp
  also from h2 tag have "\<dots> = word_of_int 0x04" by simp
  finally have "mem ! p ctx = 0x04" by simp
  then show ?thesis
    by (simp add: asn1_octet_string_get_ptr_def h1 h3 v)
qed

lemma consumed_0: "consumed 0 ctx = ctx"
  by (simp add: consumed_def)

lemma consumed_consumed: "consumed a (consumed b ctx) = consumed (a + b) ctx"
  by (simp add: consumed_def add.commute add.left_commute diff_diff_eq)

lemma consumed_fields:
  "p (consumed k ctx) = p ctx + k" "app_type (consumed k ctx) = app_type ctx"
  "ctx_length (consumed k ctx) = ctx_length ctx - word_of_nat k"
  by (simp_all add: consumed_def)

lemma unat_consumed:
  fixes ctx :: "'a::len asn1_context"
  assumes "k \<le> unat (ctx_length ctx)"
  shows "unat (ctx_length (consumed k ctx)) = unat (ctx_length ctx) - k"
proof -
  have lt: "unat (ctx_length ctx) < 2 ^ LENGTH('a)" by (rule unsigned_less)
  with assms have "k < 2 ^ LENGTH('a)" by linarith
  then have uk: "unat (word_of_nat k :: 'a word) = k" by (simp add: unat_of_nat)
  with assms have "(word_of_nat k :: 'a word) \<le> ctx_length ctx"
    by (simp add: word_le_nat_alt)
  then have "unat (ctx_length ctx - word_of_nat k) = unat (ctx_length ctx) - unat (word_of_nat k :: 'a word)"
    by (rule unat_sub)
  then show ?thesis by (simp only: consumed_fields uk)
qed

lemma get_byte_consumed:
  assumes "get_byte mem ctx = Inr (b, ctx')"
  shows "(ctx_length ctx = 0 \<and> b = - 1 \<and> ctx' = ctx)
       \<or> (ctx_length ctx \<noteq> 0 \<and> b = uint (mem ! p ctx) \<and> b \<noteq> - 1 \<and> ctx' = consumed 1 ctx)"
  using get_byte_Inr [OF assms] by (auto simp: consumed_def)

lemma decode_length_loop_position:
  "decode_length_loop mem n acc ctx = Inr (r, ctx') \<Longrightarrow>
   ctx' = consumed (min n (unat (ctx_length ctx))) ctx \<and> (r = None \<longleftrightarrow> unat (ctx_length ctx) < n)"
proof (induction n arbitrary: acc ctx)
  case 0
  then show ?case by (auto simp: consumed_0)
next
  case (Suc n)
  from Suc.prems obtain b ctx1 where g: "get_byte mem ctx = Inr (b, ctx1)"
    by (auto split: sum.splits)
  show ?case
  proof (cases "ctx_length ctx = 0")
    case True
    with g have "b = - 1" "ctx1 = ctx" using get_byte_consumed [OF g] by auto
    with Suc.prems g True show ?thesis by (auto simp: consumed_0)
  next
    case False
    with g have nb: "b \<noteq> - 1" and c1: "ctx1 = consumed 1 ctx"
      using get_byte_consumed [OF g] by auto
    from False have pos: "1 \<le> unat (ctx_length ctx)"
      by (simp add: unat_eq_0 Suc_leI le_neq_implies_less)
    from Suc.prems g nb have
      rest: "decode_length_loop mem n (push_bit 8 acc + word_of_int b) ctx1 = Inr (r, ctx')"
      by simp
    from Suc.IH [OF rest] have
      a: "ctx' = consumed (min n (unat (ctx_length ctx1))) ctx1"
      and b: "r = None \<longleftrightarrow> unat (ctx_length ctx1) < n"
      by simp_all
    have u: "unat (ctx_length ctx1) = unat (ctx_length ctx) - 1"
      unfolding c1 using unat_consumed [OF pos] .
    from pos have m: "min n (unat (ctx_length ctx) - 1) + 1 = min (Suc n) (unat (ctx_length ctx))"
      by linarith
    from a have "ctx' = consumed (min n (unat (ctx_length ctx) - 1)) ctx1"
      by (simp only: u)
    then have "ctx' = consumed (min n (unat (ctx_length ctx) - 1) + 1) ctx"
      by (simp only: c1 consumed_consumed)
    then have "ctx' = consumed (min (Suc n) (unat (ctx_length ctx))) ctx"
      by (simp only: m)
    moreover from b pos have "r = None \<longleftrightarrow> unat (ctx_length ctx) < Suc n"
      unfolding u by linarith
    ultimately show ?thesis by simp
  qed
qed


lemma decode_length_position:
  fixes ctx :: "'a::len asn1_context"
  assumes "decode_length mem ctx = Inr (r, ctx')"
  shows "ctx' = consumed (length_octets_read mem ctx) ctx"
proof -
  from assms obtain b ctx1 where g: "get_byte mem ctx = Inr (b, ctx1)"
    by (auto simp: decode_length_def split: sum.splits)
  show ?thesis
  proof (cases "ctx_length ctx = 0")
    case True
    with g have "b = - 1" "ctx1 = ctx" using get_byte_consumed [OF g] by auto
    with assms g True show ?thesis
      by (simp add: decode_length_def length_octets_read_def consumed_0)
  next
    case False
    with g have nb: "b \<noteq> - 1" and b: "b = uint (mem ! p ctx)" and c1: "ctx1 = consumed 1 ctx"
      using get_byte_consumed [OF g] by auto
    from False have pos: "1 \<le> unat (ctx_length ctx)"
      by (simp add: unat_eq_0 Suc_leI le_neq_implies_less)
    have u: "unat (ctx_length ctx1) = unat (ctx_length ctx) - 1"
      unfolding c1 using unat_consumed [OF pos] .
    show ?thesis
    proof (cases "b AND 0x80 = 0 \<or> (word_of_nat (LENGTH('a) div 8) :: 'a word) \<le> word_of_int (b AND 0x7F)")
      case True
      with assms g nb have "ctx' = ctx1"
        by (auto simp: decode_length_def split: if_splits)
      with True False show ?thesis
        by (auto simp: length_octets_read_def c1 b)
    next
      case False
      with assms g nb have
        loop: "decode_length_loop mem (nat (b AND 0x7F)) 0 ctx1 = Inr (r, ctx')"
        by (auto simp: decode_length_def split: if_splits)
      from decode_length_loop_position [OF loop]
      have "ctx' = consumed (min (nat (b AND 0x7F)) (unat (ctx_length ctx) - 1)) ctx1"
        by (simp only: u)
      then have "ctx' = consumed (min (nat (b AND 0x7F)) (unat (ctx_length ctx) - 1) + 1) ctx"
        by (simp only: c1 consumed_consumed)
      with False \<open>ctx_length ctx \<noteq> 0\<close> show ?thesis
        by (simp add: length_octets_read_def b)
    qed
  qed
qed

lemma length_octets_read_le: "length_octets_read mem ctx \<le> unat (ctx_length ctx)"
proof (cases "ctx_length ctx = 0")
  case True
  then show ?thesis by (simp add: length_octets_read_def)
next
  case False
  then have "1 \<le> unat (ctx_length ctx)"
    by (simp add: unat_eq_0 Suc_leI le_neq_implies_less)
  then show ?thesis by (auto simp: length_octets_read_def)
qed

lemma header_octets_read_bounds:
  "header_octets_read tag_ok mem ctx \<le> unat (ctx_length ctx)
   \<and> (header_octets_read tag_ok mem ctx = 0 \<longleftrightarrow> ctx_length ctx = 0)"
proof (cases "ctx_length ctx = 0")
  case True
  then show ?thesis by (simp add: header_octets_read_def)
next
  case False
  then have pos: "1 \<le> unat (ctx_length ctx)"
    by (simp add: unat_eq_0 Suc_leI le_neq_implies_less)
  have "length_octets_read mem (consumed 1 ctx) \<le> unat (ctx_length ctx) - 1"
    using length_octets_read_le [of mem "consumed 1 ctx"] unat_consumed [OF pos] by simp
  with pos False show ?thesis by (auto simp: header_octets_read_def)
qed

lemma extractor_position:
  assumes g: "get_byte mem ctx = Inr (b, ctx1)"
    and tail: "(b = - 1 \<or> \<not> tag_ok b) \<and> ctx' = ctx1
             \<or> b \<noteq> - 1 \<and> tag_ok b \<and> (\<exists>r. decode_length mem ctx1 = Inr (r, ctx'))"
  shows "ctx' = consumed (header_octets_read tag_ok mem ctx) ctx"
proof (cases "ctx_length ctx = 0")
  case True
  with g have "b = - 1" "ctx1 = ctx" using get_byte_consumed [OF g] by auto
  with tail True show ?thesis by (auto simp: header_octets_read_def consumed_0)
next
  case False
  with g have nb: "b \<noteq> - 1" and b: "b = uint (mem ! p ctx)" and c1: "ctx1 = consumed 1 ctx"
    using get_byte_consumed [OF g] by auto
  show ?thesis
  proof (cases "tag_ok b")
    case True
    with tail nb obtain r where "decode_length mem ctx1 = Inr (r, ctx')" by auto
    from decode_length_position [OF this]
    have "ctx' = consumed (length_octets_read mem (consumed 1 ctx) + 1) ctx"
      by (simp only: c1 consumed_consumed)
    with True False show ?thesis by (simp add: header_octets_read_def b)
  next
    case False
    with tail have "ctx' = ctx1" by auto
    with False \<open>ctx_length ctx \<noteq> 0\<close> show ?thesis by (simp add: header_octets_read_def b c1)
  qed
qed

lemma constructed_get_position:
  "asn1_constructed_get mem ctx = Inr (r, ctx') \<Longrightarrow>
   ctx' = consumed (header_octets_read (\<lambda>t. t AND 0xE0 = 0xA0) mem ctx) ctx"
  by (rule extractor_position [where b = "fst (projr (get_byte mem ctx))"
        and ?ctx1.0 = "snd (projr (get_byte mem ctx))"])
     (auto simp: asn1_constructed_get_def split: sum.splits prod.splits option.splits if_splits)


lemma sequence_get_position:
  "asn1_sequence_get mem ctx = Inr (r, ctx') \<Longrightarrow>
   ctx' = consumed (header_octets_read (\<lambda>t. t AND 0x7F = 0x30) mem ctx) ctx"
  by (rule extractor_position [where b = "fst (projr (get_byte mem ctx))"
        and ?ctx1.0 = "snd (projr (get_byte mem ctx))"])
     (auto simp: asn1_sequence_get_def split: sum.splits prod.splits option.splits if_splits)

lemma set_get_position:
  "asn1_set_get mem ctx = Inr (r, ctx') \<Longrightarrow>
   ctx' = consumed (header_octets_read (\<lambda>t. t AND 0x7F = 0x31) mem ctx) ctx"
  by (rule extractor_position [where b = "fst (projr (get_byte mem ctx))"
        and ?ctx1.0 = "snd (projr (get_byte mem ctx))"])
     (auto simp: asn1_set_get_def split: sum.splits prod.splits option.splits if_splits)

lemma oid_get_position:
  "asn1_oid_get mem ctx = Inr (r, ctx') \<Longrightarrow>
   ctx' = consumed (header_octets_read (\<lambda>t. t = 0x06) mem ctx) ctx"
  by (rule extractor_position [where b = "fst (projr (get_byte mem ctx))"
        and ?ctx1.0 = "snd (projr (get_byte mem ctx))"])
     (auto simp: asn1_oid_get_def split: sum.splits prod.splits option.splits if_splits)

lemma octet_string_get_position:
  "asn1_octet_string_get mem ctx = Inr (r, ctx') \<Longrightarrow>
   ctx' = consumed (header_octets_read (\<lambda>t. t = 0x04) mem ctx) ctx"
  by (rule extractor_position [where b = "fst (projr (get_byte mem ctx))"
        and ?ctx1.0 = "snd (projr (get_byte mem ctx))"])
     (auto simp: asn1_octet_string_get_def split: sum.splits prod.splits option.splits if_splits)

lemma sequence_next_position:
  "asn1_sequence_next mem ctx = Inr (0, ctx') \<Longrightarrow>
   ctx' = consumed (header_octets_read (\<lambda>t. True) mem ctx) ctx"
  by (rule extractor_position [where b = "fst (projr (get_byte mem ctx))"
        and ?ctx1.0 = "snd (projr (get_byte mem ctx))"])
     (auto simp: asn1_sequence_next_def skip_bytes_def
           split: sum.splits prod.splits option.splits if_splits)

lemma decode_length_loop_ptr_sim:
  "decode_length_loop_ptr mem n (p ctx) acc = Inr len \<Longrightarrow> n \<le> unat (ctx_length ctx) \<Longrightarrow>
   decode_length_loop mem n acc ctx = Inr (Some len, consumed n ctx)"
proof (induction n arbitrary: acc ctx)
  case 0
  then show ?case by (simp add: consumed_0)
next
  case (Suc n)
  from Suc.prems(1) obtain b where d: "deref mem (p ctx) = Inr b"
    and rest: "decode_length_loop_ptr mem n (p ctx + 1) (push_bit 8 acc + word_of_int (uint b)) = Inr len"
    by (auto split: sum.splits)
  from Suc.prems(2) have pos: "1 \<le> unat (ctx_length ctx)" by linarith
  then have ne: "ctx_length ctx \<noteq> 0" by (auto simp: unat_eq_0)
  from d ne have g: "get_byte mem ctx = Inr (uint b, consumed 1 ctx)"
    by (simp add: get_byte_def consumed_def)
  have p1: "p (consumed 1 ctx) = p ctx + 1" by (rule consumed_fields)
  have "n \<le> unat (ctx_length (consumed 1 ctx))"
    using unat_consumed [OF pos] Suc.prems(2) by linarith
  with rest have "decode_length_loop mem n (push_bit 8 acc + word_of_int (uint b)) (consumed 1 ctx)
      = Inr (Some len, consumed n (consumed 1 ctx))"
    using Suc.IH [of "consumed 1 ctx"] by (simp only: p1)
  then have "decode_length_loop mem n (push_bit 8 acc + word_of_int (uint b)) (consumed 1 ctx)
      = Inr (Some len, consumed (Suc n) ctx)"
    by (simp add: consumed_consumed)
  with g show ?case by (simp add: uint_byte_not_minus1)
qed

lemma decode_length_ptr_sim:
  fixes ctx :: "'a::len asn1_context"
  assumes w: "8 \<le> LENGTH('a)"
    and dl: "decode_length_ptr mem (p ctx) = Inr (Some len, q)"
    and fit: "q \<le> p ctx + unat (ctx_length ctx)"
  shows "decode_length mem ctx = Inr (Some len, consumed (q - p ctx) ctx) \<and> p ctx < q"
proof -
  from dl obtain b where d: "deref mem (p ctx) = Inr b"
    by (auto simp: decode_length_ptr_def split: sum.splits)
  show ?thesis
  proof (cases "uint b AND 0x80 = 0")
    case True
    with dl d have len: "len = word_of_int (uint b)" and q: "q = p ctx + 1"
      by (simp_all add: decode_length_ptr_alt [OF w])
    from fit q have pos: "1 \<le> unat (ctx_length ctx)" by linarith
    then have ne: "ctx_length ctx \<noteq> 0" by (auto simp: unat_eq_0)
    from d ne have g: "get_byte mem ctx = Inr (uint b, consumed 1 ctx)"
      by (simp add: get_byte_def consumed_def)
    from g True len q show ?thesis
      by (simp add: decode_length_def uint_byte_not_minus1)
  next
    case False
    let ?n = "nat (uint b AND 0x7F)"
    from False dl d have
      small: "\<not> (word_of_nat (LENGTH('a) div 8) :: 'a word) \<le> word_of_int (uint b AND 0x7F)"
      by (auto simp: decode_length_ptr_alt [OF w] split: if_splits)
    with False dl d have
      loop: "decode_length_loop_ptr mem ?n (p ctx + 1) (0 :: 'a word) = Inr len"
      and q: "q = p ctx + 1 + ?n"
      by (auto simp: decode_length_ptr_alt [OF w] split: if_splits sum.splits)
    from fit q have pos: "1 \<le> unat (ctx_length ctx)" by linarith
    then have ne: "ctx_length ctx \<noteq> 0" by (auto simp: unat_eq_0)
    from d ne have g: "get_byte mem ctx = Inr (uint b, consumed 1 ctx)"
      by (simp add: get_byte_def consumed_def)
    have p1: "p (consumed 1 ctx) = p ctx + 1" by (rule consumed_fields)
    have "?n \<le> unat (ctx_length (consumed 1 ctx))"
      using unat_consumed [OF pos] fit q by linarith
    with loop have "decode_length_loop mem ?n 0 (consumed 1 ctx)
        = Inr (Some len, consumed ?n (consumed 1 ctx))"
      using decode_length_loop_ptr_sim [of mem ?n "consumed 1 ctx" 0 len] by (simp only: p1)
    then have "decode_length_loop mem ?n 0 (consumed 1 ctx)
        = Inr (Some len, consumed (q - p ctx) ctx)"
      by (simp add: consumed_consumed q)
    with g False small q show ?thesis
      by (simp add: decode_length_def uint_byte_not_minus1)
  qed
qed

lemma and_0x80_zero_small:
  fixes x :: int
  assumes "x AND 0x80 = 0" "0 \<le> x" "x < 256"
  shows "x < 128"
proof (rule ccontr)
  assume "\<not> x < 128"
  with assms have "x div 128 = 1" by simp
  then have "bit x 7" by (simp add: bit_iff_odd)
  moreover have "(0x80 :: int) = 2 ^ 7" by simp
  ultimately have "x AND 0x80 \<noteq> 0"
    by (simp only: and_exp_eq_0_iff_not_bit) simp
  with assms(1) show False by simp
qed

lemma decode_length_loop_ptr_inbounds:
  "decode_length_loop_ptr mem n q acc = Inr len \<Longrightarrow> q \<le> length mem \<Longrightarrow> q + n \<le> length mem"
proof (induction n arbitrary: q acc)
  case 0
  then show ?case by simp
next
  case (Suc n)
  from Suc.prems(1) obtain b where d: "deref mem q = Inr b"
    and rest: "decode_length_loop_ptr mem n (q + 1) (push_bit 8 acc + word_of_int (uint b)) = Inr len"
    by (auto split: sum.splits)
  from d have "q + 1 \<le> length mem" by (auto simp: deref_def split: if_splits)
  from Suc.IH [OF rest this] show ?case by simp
qed

lemma unat_shift_add_byte:
  fixes acc :: "'a::len word" and b :: byte
  shows "unat (push_bit 8 acc + word_of_int (uint b)) \<le> unat acc * 256 + 255"
proof -
  have "unat (push_bit 8 acc + word_of_int (uint b) :: 'a word)
          \<le> unat (push_bit 8 acc) + unat (word_of_int (uint b) :: 'a word)"
    by (simp add: unat_word_ariths)
  moreover have "unat (push_bit 8 acc) \<le> unat acc * 256"
  proof -
    have "unat (acc * 256) = unat acc * unat (256 :: 'a word) mod 2 ^ LENGTH('a)"
      by (rule unat_word_ariths)
    then have a: "unat (acc * 256) \<le> unat acc * unat (256 :: 'a word)"
      by (simp only: mod_less_eq_dividend)
    have "unat (256 :: 'a word) = take_bit LENGTH('a) (256 :: nat)"
      by simp
    then have "unat (256 :: 'a word) \<le> 256"
      by (simp only: take_bit_nat_less_eq_self)
    then have "unat acc * unat (256 :: 'a word) \<le> unat acc * 256"
      by (rule mult_le_mono2)
    with a have "unat (acc * 256) \<le> unat acc * 256" by (rule order_trans)
    then show ?thesis by (simp add: push_bit_eq_mult)
  qed
  moreover have "unat (word_of_int (uint b) :: 'a word) \<le> 255"
  proof -
    have "unat (word_of_int (uint b) :: 'a word) \<le> unat b"
      by (simp add: unsigned_ucast_eq take_bit_nat_less_eq_self)
    moreover have "unat b < 2 ^ LENGTH(8)" by (rule unsigned_less)
    ultimately show ?thesis by simp
  qed
  ultimately show ?thesis by linarith
qed

lemma decode_length_loop_ptr_bound:
  fixes acc :: "'a::len word"
  shows "decode_length_loop_ptr mem n q acc = Inr len \<Longrightarrow> unat acc < 256 ^ m \<Longrightarrow>
         unat len < 256 ^ (m + n)"
proof (induction n arbitrary: q acc m)
  case 0
  then show ?case by simp
next
  case (Suc n)
  from Suc.prems(1) obtain b :: byte where
    rest: "decode_length_loop_ptr mem n (q + 1) (push_bit 8 acc + word_of_int (uint b)) = Inr len"
    by (auto split: sum.splits)
  from Suc.prems(2) have "unat acc * 256 + 255 < 256 ^ m * 256" by linarith
  with unat_shift_add_byte [of acc b]
  have "unat (push_bit 8 acc + word_of_int (uint b)) < 256 ^ Suc m" by simp
  from Suc.IH [OF rest this] show ?case by simp
qed


lemma decode_length_ptr_bounds:
  fixes len :: "'a::len word"
  assumes w: "8 \<le> LENGTH('a)" and dl: "decode_length_ptr mem s = Inr (Some len, q)"
  shows "unat len < 2 ^ (LENGTH('a) - 1)" and "q \<le> length mem" and "s < q"
proof -
  from dl obtain b where d: "deref mem s = Inr b"
    by (auto simp: decode_length_ptr_def split: sum.splits)
  then have sm: "s + 1 \<le> length mem" by (auto simp: deref_def split: if_splits)
  have "unat len < 2 ^ (LENGTH('a) - 1) \<and> q \<le> length mem \<and> s < q"
  proof (cases "uint b AND 0x80 = 0")
    case True
    with dl d have len: "len = word_of_int (uint b)" and q: "q = s + 1"
      by (simp_all add: decode_length_ptr_alt [OF w])
    have "uint b < 128"
      using True uint_lt2p [of b] by (intro and_0x80_zero_small) simp_all
    moreover have "unat b = nat (uint b)" by (rule unat_eq_nat_uint)
    ultimately have "unat b < 128" by linarith
    moreover have "unat (word_of_int (uint b) :: 'a word) \<le> unat b"
      by (simp add: unsigned_ucast_eq take_bit_nat_less_eq_self)
    moreover have "(2::nat) ^ 7 \<le> 2 ^ (LENGTH('a) - 1)"
      using w by (intro power_increasing) simp_all
    ultimately have "unat len < 2 ^ (LENGTH('a) - 1)" using len by simp
    with q sm show ?thesis by simp
  next
    case False
    let ?n = "nat (uint b AND 0x7F)"
    from False dl d have
      small: "\<not> (word_of_nat (LENGTH('a) div 8) :: 'a word) \<le> word_of_int (uint b AND 0x7F)"
      by (auto simp: decode_length_ptr_alt [OF w] split: if_splits)
    with False dl d have
      loop: "decode_length_loop_ptr mem ?n (s + 1) (0 :: 'a word) = Inr len"
      and q: "q = s + 1 + ?n"
      by (auto simp: decode_length_ptr_alt [OF w] split: if_splits sum.splits)
    from small have n: "?n < LENGTH('a) div 8"
      using sizeof_size_t_le [OF w, of "uint b AND 0x7F"] and_7F_bounds [of "uint b"] by simp
    from decode_length_loop_ptr_bound [OF loop, of 0] have "unat len < 256 ^ ?n" by simp
    also have "(256::nat) ^ ?n = 2 ^ (8 * ?n)" by (simp add: power_mult)
    also have "\<dots> \<le> 2 ^ (LENGTH('a) - 1)"
      using n by (intro power_increasing) simp_all
    finally have "unat len < 2 ^ (LENGTH('a) - 1)" .
    moreover from decode_length_loop_ptr_inbounds [OF loop sm] q have "q \<le> length mem" by simp
    ultimately show ?thesis using q by simp
  qed
  then show "unat len < 2 ^ (LENGTH('a) - 1)" and "q \<le> length mem" and "s < q"
    by simp_all
qed

lemma pointer_check_fits:
  fixes ctx :: "'a::len asn1_context"
  assumes w: "8 \<le> LENGTH('a)" and sv: "same_view ctx_ptr ctx"
    and small: "length mem < 2 ^ (LENGTH('a) - 1)"
    and dl: "decode_length_ptr mem (Suc (p_ptr ctx_ptr)) = Inr (Some len, q)"
    and chk: "\<not> length_ptr ctx_ptr < word_of_int (int q - int (buffer_ptr ctx_ptr)) + len"
  shows "q + unat len \<le> p ctx + unat (ctx_length ctx)"
proof -
  let ?k = "q - buffer_ptr ctx_ptr"
  note b = decode_length_ptr_bounds [OF w dl]
  from sv have pp: "p_ptr ctx_ptr = p ctx" and bp: "buffer_ptr ctx_ptr \<le> p ctx"
    and e: "(p ctx - buffer_ptr ctx_ptr) + unat (ctx_length ctx) = unat (length_ptr ctx_ptr)"
    unfolding same_view_def by auto
  from b(3) pp bp have bq: "buffer_ptr ctx_ptr \<le> q" by linarith
  then have wk: "(word_of_int (int q - int (buffer_ptr ctx_ptr)) :: 'a word) = word_of_nat ?k"
    by simp
  have two: "(2::nat) ^ (LENGTH('a) - 1) + 2 ^ (LENGTH('a) - 1) = 2 ^ LENGTH('a)"
  proof -
    have "LENGTH('a) = Suc (LENGTH('a) - 1)" using w by simp
    then have "(2::nat) ^ LENGTH('a) = 2 * 2 ^ (LENGTH('a) - 1)" by (metis power_Suc)
    then show ?thesis by simp
  qed
  from b(2) small have k: "?k < 2 ^ (LENGTH('a) - 1)" by linarith
  with two have "?k < 2 ^ LENGTH('a)" by linarith
  then have uk: "unat (word_of_nat ?k :: 'a word) = ?k" by (simp add: unat_of_nat)
  from k b(1) two have "?k + unat len < 2 ^ LENGTH('a)" by linarith
  then have "unat (word_of_nat ?k :: 'a word) + unat len < 2 ^ LENGTH('a)" by (simp only: uk)
  then have "unat (word_of_nat ?k + len) = ?k + unat len"
    by (simp add: unat_add_lem [THEN iffD1] uk)
  moreover from chk have "\<not> unat (length_ptr ctx_ptr) < unat (word_of_nat ?k + len)"
    unfolding wk word_less_nat_alt .
  ultimately have "?k + unat len \<le> unat (length_ptr ctx_ptr)" by linarith
  with e bq bp show ?thesis by linarith
qed

lemma header_ptr_sim:
  fixes ctx :: "'a::len asn1_context"
  assumes w: "8 \<le> LENGTH('a)"
    and dl: "decode_length_ptr mem (Suc (p ctx)) = Inr (Some len, q)"
    and fit: "q + unat len \<le> p ctx + unat (ctx_length ctx)"
  shows "get_byte mem ctx = Inr (uint (mem ! p ctx), consumed 1 ctx)"
    and "deref mem (p ctx) = Inr (mem ! p ctx)"
    and "decode_length mem (consumed 1 ctx) = Inr (Some len, consumed (q - p ctx) ctx)"
    and "\<not> ctx_length (consumed (q - p ctx) ctx) < len"
    and "p (consumed (q - p ctx) ctx) = q"
proof -
  note b = decode_length_ptr_bounds [OF w dl]
  from b(2,3) have "p ctx < length mem" by linarith
  then show d: "deref mem (p ctx) = Inr (mem ! p ctx)" by (simp add: deref_def)
  from b(3) fit have pos: "1 \<le> unat (ctx_length ctx)" by linarith
  then have ne: "ctx_length ctx \<noteq> 0" by (auto simp: unat_eq_0)
  from d ne show "get_byte mem ctx = Inr (uint (mem ! p ctx), consumed 1 ctx)"
    by (simp add: get_byte_def consumed_def)
  have p1: "p (consumed 1 ctx) = Suc (p ctx)" by (simp add: consumed_fields)
  have u1: "unat (ctx_length (consumed 1 ctx)) = unat (ctx_length ctx) - 1"
    by (rule unat_consumed [OF pos])
  from dl have dl1: "decode_length_ptr mem (p (consumed 1 ctx)) = Inr (Some len, q)"
    by (simp only: p1)
  have fit1: "q \<le> p (consumed 1 ctx) + unat (ctx_length (consumed 1 ctx))"
    unfolding p1 u1 using fit pos by linarith
  from decode_length_ptr_sim [OF w dl1 fit1]
  have "decode_length mem (consumed 1 ctx)
          = Inr (Some len, consumed (q - Suc (p ctx)) (consumed 1 ctx))"
    by (simp only: p1)
  moreover from b(3) have "q - Suc (p ctx) + 1 = q - p ctx" by linarith
  ultimately show "decode_length mem (consumed 1 ctx) = Inr (Some len, consumed (q - p ctx) ctx)"
    by (simp only: consumed_consumed)
  from b(3) fit have kle: "q - p ctx \<le> unat (ctx_length ctx)" by linarith
  from unat_consumed [OF kle] fit b(3)
  have "unat len \<le> unat (ctx_length (consumed (q - p ctx) ctx))" by linarith
  then show "\<not> ctx_length (consumed (q - p ctx) ctx) < len"
    by (simp add: word_less_nat_alt)
  from b(3) show "p (consumed (q - p ctx) ctx) = q" by (simp add: consumed_fields)
qed

lemma constructed_get_ptr_sim:
  fixes ctx :: "'a::len asn1_context"
  assumes w: "8 \<le> LENGTH('a)" and sv: "same_view ctx_ptr ctx"
    and small: "length mem < 2 ^ (LENGTH('a) - 1)"
    and r: "asn1_constructed_get_ptr mem ctx_ptr = Inr (Some child_ptr, ctx_ptr')"
  shows "\<exists>child ctx'. asn1_constructed_get mem ctx = Inr (Some child, ctx')"
proof -
  from r obtain b len q where d: "deref mem (p_ptr ctx_ptr) = Inr b"
    and tag: "uint b AND 0xE0 = 0xA0"
    and dl: "decode_length_ptr mem (Suc (p_ptr ctx_ptr)) = Inr (Some len, q)"
    and chk: "\<not> length_ptr ctx_ptr < word_of_int (int q - int (buffer_ptr ctx_ptr)) + len"
    by (auto simp: asn1_constructed_get_ptr_def split: sum.splits prod.splits option.splits if_splits)
  from sv have pp: "p_ptr ctx_ptr = p ctx" by (simp add: same_view_def)
  note fit = pointer_check_fits [OF w sv small dl chk]
  from dl have dl': "decode_length_ptr mem (Suc (p ctx)) = Inr (Some len, q)" by (simp only: pp)
  note h = header_ptr_sim [OF w dl' fit]
  from d h(2) have b: "mem ! p ctx = b" by (simp add: pp)
  from tag h(1) h(3) h(4) show ?thesis
    by (simp add: asn1_constructed_get_def b uint_byte_not_minus1)
qed

lemma sequence_get_ptr_sim:
  fixes ctx :: "'a::len asn1_context"
  assumes w: "8 \<le> LENGTH('a)" and sv: "same_view ctx_ptr ctx"
    and small: "length mem < 2 ^ (LENGTH('a) - 1)"
    and r: "asn1_sequence_get_ptr mem ctx_ptr = Inr (Some child_ptr, ctx_ptr')"
  shows "\<exists>child ctx'. asn1_sequence_get mem ctx = Inr (Some child, ctx')"
proof -
  from r obtain b len q where d: "deref mem (p_ptr ctx_ptr) = Inr b"
    and tag: "uint b AND 0x7F = 0x30"
    and dl: "decode_length_ptr mem (Suc (p_ptr ctx_ptr)) = Inr (Some len, q)"
    and chk: "\<not> length_ptr ctx_ptr < word_of_int (int q - int (buffer_ptr ctx_ptr)) + len"
    by (auto simp: asn1_sequence_get_ptr_def split: sum.splits prod.splits option.splits if_splits)
  from sv have pp: "p_ptr ctx_ptr = p ctx" by (simp add: same_view_def)
  note fit = pointer_check_fits [OF w sv small dl chk]
  from dl have dl': "decode_length_ptr mem (Suc (p ctx)) = Inr (Some len, q)" by (simp only: pp)
  note h = header_ptr_sim [OF w dl' fit]
  from d h(2) have b: "mem ! p ctx = b" by (simp add: pp)
  from tag h(1) h(3) h(4) show ?thesis
    by (simp add: asn1_sequence_get_def b uint_byte_not_minus1)
qed

lemma set_get_ptr_sim:
  fixes ctx :: "'a::len asn1_context"
  assumes w: "8 \<le> LENGTH('a)" and sv: "same_view ctx_ptr ctx"
    and small: "length mem < 2 ^ (LENGTH('a) - 1)"
    and r: "asn1_set_get_ptr mem ctx_ptr = Inr (Some child_ptr, ctx_ptr')"
  shows "\<exists>child ctx'. asn1_set_get mem ctx = Inr (Some child, ctx')"
proof -
  from r obtain b len q where d: "deref mem (p_ptr ctx_ptr) = Inr b"
    and tag: "uint b AND 0x7F = 0x31"
    and dl: "decode_length_ptr mem (Suc (p_ptr ctx_ptr)) = Inr (Some len, q)"
    and chk: "\<not> length_ptr ctx_ptr < word_of_int (int q - int (buffer_ptr ctx_ptr)) + len"
    by (auto simp: asn1_set_get_ptr_def split: sum.splits prod.splits option.splits if_splits)
  from sv have pp: "p_ptr ctx_ptr = p ctx" by (simp add: same_view_def)
  note fit = pointer_check_fits [OF w sv small dl chk]
  from dl have dl': "decode_length_ptr mem (Suc (p ctx)) = Inr (Some len, q)" by (simp only: pp)
  note h = header_ptr_sim [OF w dl' fit]
  from d h(2) have b: "mem ! p ctx = b" by (simp add: pp)
  from tag h(1) h(3) h(4) show ?thesis
    by (simp add: asn1_set_get_def b uint_byte_not_minus1)
qed

lemma oid_get_ptr_sim:
  fixes ctx :: "'a::len asn1_context"
  assumes w: "8 \<le> LENGTH('a)" and sv: "same_view ctx_ptr ctx"
    and r: "asn1_oid_get_ptr mem ctx_ptr = Inr (Some (q, len), ctx_ptr')"
    and fit: "q + unat len \<le> p ctx + unat (ctx_length ctx)"
  shows "\<exists>ctx'. asn1_oid_get mem ctx = Inr (Some (q, len), ctx')"
proof -
  from r have d: "deref mem (p_ptr ctx_ptr) = Inr 0x06"
    and dl: "decode_length_ptr mem (Suc (p_ptr ctx_ptr)) = Inr (Some len, q)"
    by (auto simp: asn1_oid_get_ptr_def split: sum.splits prod.splits option.splits if_splits)
  from sv have pp: "p_ptr ctx_ptr = p ctx" by (simp add: same_view_def)
  from dl have dl': "decode_length_ptr mem (Suc (p ctx)) = Inr (Some len, q)" by (simp only: pp)
  note h = header_ptr_sim [OF w dl' fit]
  from d h(2) have b: "mem ! p ctx = 0x06" by (simp add: pp)
  from h(1) h(3) h(4) h(5) show ?thesis
    by (simp add: asn1_oid_get_def b)
qed

lemma octet_string_get_ptr_sim:
  fixes ctx :: "'a::len asn1_context"
  assumes w: "8 \<le> LENGTH('a)" and sv: "same_view ctx_ptr ctx"
    and r: "asn1_octet_string_get_ptr mem ctx_ptr = Inr (Some (q, len), ctx_ptr')"
    and fit: "q + unat len \<le> p ctx + unat (ctx_length ctx)"
  shows "\<exists>ctx'. asn1_octet_string_get mem ctx = Inr (Some (q, len), ctx')"
proof -
  from r have d: "deref mem (p_ptr ctx_ptr) = Inr 0x04"
    and dl: "decode_length_ptr mem (Suc (p_ptr ctx_ptr)) = Inr (Some len, q)"
    by (auto simp: asn1_octet_string_get_ptr_def split: sum.splits prod.splits option.splits if_splits)
  from sv have pp: "p_ptr ctx_ptr = p ctx" by (simp add: same_view_def)
  from dl have dl': "decode_length_ptr mem (Suc (p ctx)) = Inr (Some len, q)" by (simp only: pp)
  note h = header_ptr_sim [OF w dl' fit]
  from d h(2) have b: "mem ! p ctx = 0x04" by (simp add: pp)
  from h(1) h(3) h(4) h(5) show ?thesis
    by (simp add: asn1_octet_string_get_def b)
qed

lemma sequence_next_ptr_sim:
  fixes ctx :: "'a::len asn1_context"
  assumes w: "8 \<le> LENGTH('a)" and sv: "same_view ctx_ptr ctx"
    and small: "length mem < 2 ^ (LENGTH('a) - 1)"
    and r: "asn1_sequence_next_ptr mem ctx_ptr = Inr (1, ctx_ptr')"
  shows "\<exists>ctx'. asn1_sequence_next mem ctx = Inr (1, ctx')"
proof -
  from r obtain len q where
    dl: "decode_length_ptr mem (Suc (p_ptr ctx_ptr)) = Inr (Some len, q)"
    and chk: "\<not> length_ptr ctx_ptr < word_of_int (int q - int (buffer_ptr ctx_ptr)) + len"
    by (auto simp: asn1_sequence_next_ptr_def split: sum.splits prod.splits option.splits if_splits)
  from sv have pp: "p_ptr ctx_ptr = p ctx" by (simp add: same_view_def)
  note fit = pointer_check_fits [OF w sv small dl chk]
  from dl have dl': "decode_length_ptr mem (Suc (p ctx)) = Inr (Some len, q)" by (simp only: pp)
  note h = header_ptr_sim [OF w dl' fit]
  from h(4) have "fst (skip_bytes (consumed (q - p ctx) ctx) len) \<noteq> 0"
    by (simp add: skip_bytes_def)
  with h(1) h(3) show ?thesis
    by (simp add: asn1_sequence_next_def uint_byte_not_minus1)
qed

lemma length_ctx_bytes:
  "ctx_ok mem ctx \<Longrightarrow> length (ctx_bytes mem ctx) = unat (ctx_length ctx)"
  by (simp add: ctx_ok_def ctx_bytes_def)

lemma ctx_bytes_consumed:
  assumes ok: "ctx_ok mem ctx" and k: "k \<le> unat (ctx_length ctx)"
  shows "ctx_bytes mem (consumed k ctx) = drop k (ctx_bytes mem ctx)"
    and "ctx_ok mem (consumed k ctx)"
proof -
  note u = unat_consumed [OF k]
  have pk: "p (consumed k ctx) = p ctx + k" by (rule consumed_fields)
  show "ctx_bytes mem (consumed k ctx) = drop k (ctx_bytes mem ctx)"
    unfolding ctx_bytes_def u pk by (simp add: drop_take add.commute)
  from ok k show "ctx_ok mem (consumed k ctx)"
    unfolding ctx_ok_def u pk by linarith
qed

lemma get_byte_bytes:
  assumes ok: "ctx_ok mem ctx" and bytes: "ctx_bytes mem ctx = b # bs"
  shows "get_byte mem ctx = Inr (uint b, consumed 1 ctx)"
    and "ctx_ok mem (consumed 1 ctx)" and "ctx_bytes mem (consumed 1 ctx) = bs"
    and "1 \<le> unat (ctx_length ctx)"
proof -
  from length_ctx_bytes [OF ok] bytes show pos: "1 \<le> unat (ctx_length ctx)" by simp
  then have ne: "ctx_length ctx \<noteq> 0" by (auto simp: unat_eq_0)
  from ok pos have lt: "p ctx < length mem" by (simp add: ctx_ok_def)
  from bytes pos have "hd (drop (p ctx) mem) = b"
    by (metis ctx_bytes_def hd_take list.sel(1) not_one_le_zero not_gr_zero)
  with lt have "mem ! p ctx = b" by (simp add: hd_drop_conv_nth)
  with lt ne show "get_byte mem ctx = Inr (uint b, consumed 1 ctx)"
    by (simp add: get_byte_def deref_def consumed_def)
  from ctx_bytes_consumed [OF ok pos] bytes
  show "ctx_ok mem (consumed 1 ctx)" and "ctx_bytes mem (consumed 1 ctx) = bs"
    by simp_all
qed

lemma decode_length_loop_bytes:
  fixes ctx :: "'a::len asn1_context"
  shows "ctx_ok mem ctx \<Longrightarrow> ctx_bytes mem ctx = bs @ rest \<Longrightarrow>
    decode_length_loop mem (length bs) (word_of_nat a) ctx
      = Inr (Some (word_of_nat (foldl (\<lambda>a b. a * 256 + unat b) a bs)), consumed (length bs) ctx)"
proof (induction bs arbitrary: a ctx)
  case Nil
  then show ?case by (simp add: consumed_0)
next
  case (Cons b bs)
  from Cons.prems have bytes: "ctx_bytes mem ctx = b # (bs @ rest)" by simp
  note g = get_byte_bytes [OF Cons.prems(1) bytes]
  have acc: "(push_bit 8 (word_of_nat a) + word_of_int (uint b) :: 'a word)
               = word_of_nat (a * 256 + unat b)"
    by (simp add: push_bit_eq_mult)
  from Cons.IH [OF g(2) g(3), of "a * 256 + unat b"]
  have "decode_length_loop mem (length bs) (word_of_nat (a * 256 + unat b)) (consumed 1 ctx)
      = Inr (Some (word_of_nat (foldl (\<lambda>a b. a * 256 + unat b) a (b # bs))),
             consumed (length (b # bs)) ctx)"
    by (simp add: consumed_consumed)
  with g(1) acc show ?case by (simp add: uint_byte_not_minus1)
qed

lemma foldl_big_endian_bound:
  "foldl (\<lambda>a b. a * 256 + unat (b :: byte)) a bs < (a + 1) * 256 ^ length bs"
proof (induction bs arbitrary: a)
  case Nil
  then show ?case by simp
next
  case (Cons b bs)
  have "unat b < 2 ^ LENGTH(8)" by (rule unsigned_less)
  then have "a * 256 + unat b + 1 \<le> (a + 1) * 256" by simp
  then have "(a * 256 + unat b + 1) * 256 ^ length bs \<le> ((a + 1) * 256) * 256 ^ length bs"
    by (rule mult_le_mono1)
  with Cons.IH [of "a * 256 + unat b"]
  have "foldl (\<lambda>a b. a * 256 + unat b) (a * 256 + unat b) bs < ((a + 1) * 256) * 256 ^ length bs"
    by (rule less_le_trans)
  moreover have "((a + 1) * 256) * 256 ^ length bs = (a + 1) * 256 ^ length (b # bs)"
    by (simp add: algebra_simps)
  ultimately have "foldl (\<lambda>a b. a * 256 + unat b) (a * 256 + unat b) bs
      < (a + 1) * 256 ^ length (b # bs)"
    by (simp only:)
  then show ?case by (simp only: foldl.simps)
qed

lemma and_0x80_of_small:
  fixes x :: int
  assumes "0 \<le> x" "x < 128"
  shows "x AND 0x80 = 0"
proof -
  from assms have "x div 128 = 0" by simp
  then have "\<not> bit x 7" by (simp add: bit_iff_odd)
  then have "x AND 2 ^ 7 = 0" by (rule and_exp_eq_0_iff_not_bit [THEN iffD2])
  then show ?thesis by simp
qed

lemma and_0x7F_of_high:
  fixes x :: int
  assumes "128 \<le> x" "x < 256"
  shows "x AND 0x7F = x - 128"
proof -
  have "(0x7F :: int) = mask 7" by (simp add: mask_eq_exp_minus_1)
  then have "x AND 0x7F = take_bit 7 x" by (simp add: take_bit_eq_mask)
  also have "\<dots> = x mod 128" by (simp add: take_bit_eq_mod)
  also from assms have "\<dots> = x - 128"
    by (metis diff_add_cancel diff_ge_0_iff_ge diff_less_eq mod_add_self2 mod_pos_pos_trivial numeral_Bit0)
  finally show ?thesis .
qed

subsection \<open>Cursor primitives\<close>

text \<open>
  C6. \<^verbatim>\<open>skip_bytes\<close> returns 1 exactly when \<open>num_skip\<close> is at most the remaining
  count; then the position has moved by exactly \<open>num_skip\<close> and the count has dropped
  by \<open>num_skip\<close> (the other field is kept); otherwise it returns 0 and the context
  is the one it was given.
\<close>

theorem skip_bytes_all_or_nothing:
  fixes ctx :: "'a::len asn1_context"
  shows "(fst (skip_bytes ctx n) = 1 \<longleftrightarrow> n \<le> ctx_length ctx)
       \<and> (fst (skip_bytes ctx n) = 0 \<longleftrightarrow> \<not> n \<le> ctx_length ctx)
       \<and> (n \<le> ctx_length ctx \<longrightarrow>
            p (snd (skip_bytes ctx n)) = p ctx + unat n
          \<and> unat (ctx_length (snd (skip_bytes ctx n))) = unat (ctx_length ctx) - unat n
          \<and> unat n \<le> unat (ctx_length ctx)
          \<and> app_type (snd (skip_bytes ctx n)) = app_type ctx)
       \<and> (\<not> n \<le> ctx_length ctx \<longrightarrow> snd (skip_bytes ctx n) = ctx)"
  by (auto simp: skip_bytes_def unat_sub word_le_nat_alt word_less_nat_alt not_less)

theorem skip_bytes_all_or_nothing_witness:
  "(2 :: 64 word) \<le> ctx_length (asn1_context_new 0 5)
   \<and> skip_bytes (asn1_context_new 0 (5 :: 64 word)) 2
       = (1, \<lparr>ctx_length = 3, p = 2, app_type = 0\<rparr>)
   \<and> \<not> (7 :: 64 word) \<le> ctx_length (asn1_context_new 0 5)
   \<and> skip_bytes (asn1_context_new 0 (5 :: 64 word)) 7 = (0, asn1_context_new 0 5)"
  using skip_bytes_all_or_nothing [of "asn1_context_new 0 (5 :: 64 word)" 2]
        skip_bytes_all_or_nothing [of "asn1_context_new 0 (5 :: 64 word)" 7]
  by (simp add: asn1_context_new_def skip_bytes_def)

text \<open>
  C7. On a well-formed context \<^verbatim>\<open>peek_byte\<close> returns the next byte, or -1 when no
  byte remains, and the context it leaves is the one it was given; so any number of
  consecutive calls return the same value and leave the same context. On any
  context at all, whenever \<^verbatim>\<open>peek_byte\<close> returns it leaves the context as it was.
\<close>

theorem peek_byte_idempotent:
  fixes ctx :: "'a::len asn1_context"
  shows "(ctx_ok mem ctx \<longrightarrow>
            peek_byte mem ctx
              = Inr (if ctx_length ctx = 0 then - 1 else uint (mem ! p ctx), ctx)
          \<and> peek_times n mem ctx
              = Inr (replicate n (if ctx_length ctx = 0 then - 1 else uint (mem ! p ctx)), ctx))
       \<and> (peek_byte mem ctx = Inr (r, ctx') \<longrightarrow> ctx' = ctx)"
proof -
  have ok: "peek_byte mem ctx
              = Inr (if ctx_length ctx = 0 then - 1 else uint (mem ! p ctx), ctx)
          \<and> peek_times n mem ctx
              = Inr (replicate n (if ctx_length ctx = 0 then - 1 else uint (mem ! p ctx)), ctx)"
    if "ctx_ok mem ctx"
  proof -
    have one: "peek_byte mem ctx
                 = Inr (if ctx_length ctx = 0 then - 1 else uint (mem ! p ctx), ctx)"
      using that by (simp add: peek_byte_def ctx_ok_deref)
    have "peek_times n mem ctx
             = Inr (replicate n (if ctx_length ctx = 0 then - 1 else uint (mem ! p ctx)), ctx)"
      by (induction n) (simp_all add: one)
    with one show ?thesis by simp
  qed
  have same: "ctx' = ctx" if "peek_byte mem ctx = Inr (r, ctx')"
    using that by (auto simp: peek_byte_def split: if_splits sum.splits)
  from ok same show ?thesis by blast
qed

theorem peek_byte_idempotent_witness:
  "ctx_ok [0x30, 0x03, 0x06, 0x01, 0x2A] (asn1_context_new 0 (5 :: 64 word))
   \<and> peek_byte [0x30, 0x03, 0x06, 0x01, 0x2A] (asn1_context_new 0 (5 :: 64 word))
       = Inr (0x30, asn1_context_new 0 5)
   \<and> peek_times 3 [0x30, 0x03, 0x06, 0x01, 0x2A] (asn1_context_new 0 (5 :: 64 word))
       = Inr ([0x30, 0x30, 0x30], asn1_context_new 0 5)"
proof -
  have ok: "ctx_ok [0x30, 0x03, 0x06, 0x01, 0x2A] (asn1_context_new 0 (5 :: 64 word))"
    by (simp add: ctx_ok_def asn1_context_new_def)
  show ?thesis
    using ok peek_byte_idempotent
      [of "[0x30, 0x03, 0x06, 0x01, 0x2A]" "asn1_context_new 0 (5 :: 64 word)" 3
          "0x30" "asn1_context_new 0 (5 :: 64 word)"]
    by (simp add: asn1_context_new_def numeral_3_eq_3)
qed

subsection \<open>The length decoder\<close>

text \<open>
  C8. When the next byte is 0x80, \<^verbatim>\<open>decode_length\<close> returns 1 with length 0 and has
  consumed that one byte only (\<^verbatim>\<open>size_t\<close> being at least one byte wide).
\<close>

theorem decode_length_0x80:
  fixes ctx :: "'a::len asn1_context"
  assumes "8 \<le> LENGTH('a)" and "ctx_ok mem ctx" and "ctx_length ctx \<noteq> 0"
    and "mem ! p ctx = 0x80"
  shows "decode_length mem ctx
         = Inr (Some 0, ctx\<lparr>p := p ctx + 1, ctx_length := ctx_length ctx - 1\<rparr>)"
proof -
  have "\<not> (word_of_nat (LENGTH('a) div 8) :: 'a word) \<le> word_of_int 0"
    using sizeof_size_t_le [where 'a = 'a, of 0] assms(1) by simp
  then have "\<not> (word_of_nat (LENGTH('a) div 8) :: 'a word) \<le> 0" by simp
  then show ?thesis
    using assms by (simp add: decode_length_def get_byte_nonempty)
qed

theorem decode_length_0x80_witness:
  "8 \<le> LENGTH(64) \<and> ctx_ok [0x80, 0x04] (asn1_context_new 0 (2 :: 64 word))
   \<and> ctx_length (asn1_context_new 0 (2 :: 64 word)) \<noteq> 0
   \<and> [0x80, 0x04 :: byte] ! p (asn1_context_new 0 (2 :: 64 word)) = 0x80
   \<and> decode_length [0x80, 0x04] (asn1_context_new 0 (2 :: 64 word))
       = Inr (Some 0, \<lparr>ctx_length = 1, p = 1, app_type = 0\<rparr>)"
proof -
  have ok: "ctx_ok [0x80, 0x04] (asn1_context_new 0 (2 :: 64 word))"
    by (simp add: ctx_ok_def asn1_context_new_def)
  have ne: "ctx_length (asn1_context_new 0 (2 :: 64 word)) \<noteq> 0"
    by (simp add: asn1_context_new_def)
  have b: "[0x80, 0x04 :: byte] ! p (asn1_context_new 0 (2 :: 64 word)) = 0x80"
    by (simp add: asn1_context_new_def)
  have w: "8 \<le> LENGTH(64)" by simp
  show ?thesis
    using decode_length_0x80 [OF w ok ne b] ok ne b
    by (simp add: asn1_context_new_def)
qed

text \<open>
  C3. When the first length octet has bit 0x80 set and its low seven bits are at least
  \<^verbatim>\<open>sizeof(size_t)\<close>, \<^verbatim>\<open>decode_length\<close> returns 0 and has consumed that one octet
  only. In particular, with a 4-byte \<^verbatim>\<open>size_t\<close> the octet 0x84 is rejected whatever
  octets follow it.
\<close>

theorem decode_length_rejects_wide_count:
  fixes ctx :: "'a::len asn1_context"
  shows "(ctx_ok mem ctx \<and> ctx_length ctx \<noteq> 0
          \<and> uint (mem ! p ctx) AND 0x80 \<noteq> 0
          \<and> LENGTH('a) div 8 \<le> nat (uint (mem ! p ctx) AND 0x7F) \<longrightarrow>
            decode_length mem ctx
              = Inr (None, ctx\<lparr>p := p ctx + 1, ctx_length := ctx_length ctx - 1\<rparr>))
       \<and> (len \<noteq> 0 \<longrightarrow>
            decode_length (0x84 # rest) (asn1_context_new 0 (len :: 32 word))
              = Inr (None, \<lparr>ctx_length = len - 1, p = 1, app_type = 0\<rparr>))"
proof -
  let ?n = "uint (mem ! p ctx) AND 0x7F"
  have general: "decode_length mem ctx
           = Inr (None, ctx\<lparr>p := p ctx + 1, ctx_length := ctx_length ctx - 1\<rparr>)"
    if ok: "ctx_ok mem ctx" and ne: "ctx_length ctx \<noteq> 0"
      and hi: "uint (mem ! p ctx) AND 0x80 \<noteq> 0" and wide: "LENGTH('a) div 8 \<le> nat ?n"
  proof -
    have "(word_of_nat (LENGTH('a) div 8) :: 'a word) \<le> word_of_int ?n"
    proof (cases "8 \<le> LENGTH('a)")
      case True
      then show ?thesis
        using sizeof_size_t_le [where 'a = 'a, of ?n] wide and_7F_bounds [of "uint (mem ! p ctx)"]
        by simp
    next
      case False
      then have "LENGTH('a) div 8 = 0" by simp
      then show ?thesis by simp
    qed
    then show ?thesis
      using ok ne hi by (simp add: decode_length_def get_byte_nonempty uint_byte_not_minus1)
  qed
  have "len \<noteq> 0 \<Longrightarrow>
            decode_length (0x84 # rest) (asn1_context_new 0 (len :: 32 word))
              = Inr (None, \<lparr>ctx_length = len - 1, p = 1, app_type = 0\<rparr>)"
    by (simp add: decode_length_def get_byte_def deref_def asn1_context_new_def)
  with general show ?thesis by blast
qed

theorem decode_length_rejects_wide_count_witness:
  "ctx_ok [0x88, 1, 2, 3, 4, 5, 6, 7, 8] (asn1_context_new 0 (9 :: 64 word))
   \<and> ctx_length (asn1_context_new 0 (9 :: 64 word)) \<noteq> 0
   \<and> uint ([0x88, 1, 2, 3, 4, 5, 6, 7, 8 :: byte] ! p (asn1_context_new 0 (9 :: 64 word))) AND 0x80 \<noteq> 0
   \<and> LENGTH(64) div 8
        \<le> nat (uint ([0x88, 1, 2, 3, 4, 5, 6, 7, 8 :: byte] ! p (asn1_context_new 0 (9 :: 64 word))) AND 0x7F)
   \<and> decode_length [0x88, 1, 2, 3, 4, 5, 6, 7, 8] (asn1_context_new 0 (9 :: 64 word))
        = Inr (None, \<lparr>ctx_length = 8, p = 1, app_type = 0\<rparr>)
   \<and> (5 :: 32 word) \<noteq> 0
   \<and> decode_length [0x84, 0, 0, 0, 1] (asn1_context_new 0 (5 :: 32 word))
        = Inr (None, \<lparr>ctx_length = 4, p = 1, app_type = 0\<rparr>)"
proof -
  let ?mem = "[0x88, 1, 2, 3, 4, 5, 6, 7, 8 :: byte]"
  let ?ctx = "asn1_context_new 0 (9 :: 64 word)"
  have h1: "ctx_ok ?mem ?ctx" by (simp add: ctx_ok_def asn1_context_new_def)
  have h2: "ctx_length ?ctx \<noteq> 0" by (simp add: asn1_context_new_def)
  have h3: "uint (?mem ! p ?ctx) AND 0x80 \<noteq> 0" by (simp add: asn1_context_new_def)
  have h4: "LENGTH(64) div 8 \<le> nat (uint (?mem ! p ?ctx) AND 0x7F)"
    by (simp add: asn1_context_new_def)
  have h5: "(5 :: 32 word) \<noteq> 0" by simp
  show ?thesis
    using decode_length_rejects_wide_count [of ?mem ?ctx 5 "[0, 0, 0, 1]"] h1 h2 h3 h4 h5
    by (simp add: asn1_context_new_def)
qed

subsection \<open>The extractors\<close>

text \<open>
  C9. On the buffer 30 03 06 01 2A, \<^verbatim>\<open>asn1_sequence_get\<close> returns a child context with
  3 bytes remaining, and \<^verbatim>\<open>asn1_oid_get\<close> on that child returns a pointer to the byte
  0x2A (offset 4) and the length 1; with an 8-byte and with a 4-byte \<^verbatim>\<open>size_t\<close>.
\<close>

theorem scenario_A:
  "asn1_sequence_get [0x30, 0x03, 0x06, 0x01, 0x2A] (asn1_context_new 0 (5 :: 64 word))
     = Inr (Some \<lparr>ctx_length = 3, p = 2, app_type = 0\<rparr>,
            \<lparr>ctx_length = 3, p = 2, app_type = 0\<rparr>)
   \<and> asn1_oid_get [0x30, 0x03, 0x06, 0x01, 0x2A] \<lparr>ctx_length = 3 :: 64 word, p = 2, app_type = 0\<rparr>
     = Inr (Some (4, 1), \<lparr>ctx_length = 1, p = 4, app_type = 0\<rparr>)
   \<and> [0x30, 0x03, 0x06, 0x01, 0x2A :: byte] ! 4 = 0x2A
   \<and> asn1_sequence_get [0x30, 0x03, 0x06, 0x01, 0x2A] (asn1_context_new 0 (5 :: 32 word))
     = Inr (Some \<lparr>ctx_length = 3, p = 2, app_type = 0\<rparr>,
            \<lparr>ctx_length = 3, p = 2, app_type = 0\<rparr>)
   \<and> asn1_oid_get [0x30, 0x03, 0x06, 0x01, 0x2A] \<lparr>ctx_length = 3 :: 32 word, p = 2, app_type = 0\<rparr>
     = Inr (Some (4, 1), \<lparr>ctx_length = 1, p = 4, app_type = 0\<rparr>)"
  by code_simp

text \<open>
  C2. A child context returned by \<^verbatim>\<open>asn1_constructed_get\<close>, \<^verbatim>\<open>asn1_sequence_get\<close> or
  \<^verbatim>\<open>asn1_set_get\<close> starts at or after the parent's position and ends at or before the
  parent's end as they were at the call; so the child of a well-formed parent is well
  formed. On the buffer 30 05 06 01 2A (5 declared, 3 present) \<^verbatim>\<open>asn1_sequence_get\<close>
  returns \<^verbatim>\<open>NULL\<close>.
\<close>

theorem child_within_parent:
  fixes ctx :: "'a::len asn1_context"
  shows "(asn1_constructed_get mem ctx = Inr (Some child, ctx')
        \<or> asn1_sequence_get mem ctx = Inr (Some child, ctx')
        \<or> asn1_set_get mem ctx = Inr (Some child, ctx')
        \<longrightarrow> p ctx \<le> p child
          \<and> p child + unat (ctx_length child) \<le> p ctx + unat (ctx_length ctx)
          \<and> (ctx_ok mem ctx \<longrightarrow> ctx_ok mem child))
       \<and> asn1_sequence_get [0x30, 0x05, 0x06, 0x01, 0x2A] (asn1_context_new 0 (5 :: 64 word))
           = Inr (None, \<lparr>ctx_length = 3, p = 2, app_type = 0\<rparr>)
       \<and> asn1_sequence_get [0x30, 0x05, 0x06, 0x01, 0x2A] (asn1_context_new 0 (5 :: 32 word))
           = Inr (None, \<lparr>ctx_length = 3, p = 2, app_type = 0\<rparr>)"
proof -
  have span: "p ctx \<le> p child
          \<and> p child + unat (ctx_length child) \<le> p ctx + unat (ctx_length ctx)
          \<and> (ctx_ok mem ctx \<longrightarrow> ctx_ok mem child)"
    if "asn1_constructed_get mem ctx = Inr (Some child, ctx')
        \<or> asn1_sequence_get mem ctx = Inr (Some child, ctx')
        \<or> asn1_set_get mem ctx = Inr (Some child, ctx')"
  proof -
    from that have "ctx_advanced ctx ctx' \<and> p child = p ctx' \<and> \<not> ctx_length ctx' < ctx_length child"
      using constructed_get_Some sequence_get_Some set_get_Some by blast
    then have "p ctx \<le> p child
          \<and> p child + unat (ctx_length child) \<le> p ctx + unat (ctx_length ctx)"
      using child_span [of ctx ctx' "ctx_length child"] by simp
    then show ?thesis by (auto simp: ctx_ok_def)
  qed
  have b64: "asn1_sequence_get [0x30, 0x05, 0x06, 0x01, 0x2A] (asn1_context_new 0 (5 :: 64 word))
           = Inr (None, \<lparr>ctx_length = 3, p = 2, app_type = 0\<rparr>)"
    by code_simp
  have b32: "asn1_sequence_get [0x30, 0x05, 0x06, 0x01, 0x2A] (asn1_context_new 0 (5 :: 32 word))
           = Inr (None, \<lparr>ctx_length = 3, p = 2, app_type = 0\<rparr>)"
    by code_simp
  from span b64 b32 show ?thesis by blast
qed

theorem child_within_parent_witness:
  "asn1_sequence_get [0x30, 0x03, 0x06, 0x01, 0x2A] (asn1_context_new 0 (5 :: 64 word))
     = Inr (Some \<lparr>ctx_length = 3, p = 2, app_type = 0\<rparr>,
            \<lparr>ctx_length = 3, p = 2, app_type = 0\<rparr>)
   \<and> ctx_ok [0x30, 0x03, 0x06, 0x01, 0x2A] (asn1_context_new 0 (5 :: 64 word))
   \<and> p (asn1_context_new 0 (5 :: 64 word)) \<le> p \<lparr>ctx_length = 3 :: 64 word, p = 2, app_type = 0\<rparr>
   \<and> ctx_ok [0x30, 0x03, 0x06, 0x01, 0x2A] \<lparr>ctx_length = 3 :: 64 word, p = 2, app_type = 0\<rparr>"
proof -
  have run: "asn1_sequence_get [0x30, 0x03, 0x06, 0x01, 0x2A] (asn1_context_new 0 (5 :: 64 word))
     = Inr (Some \<lparr>ctx_length = 3, p = 2, app_type = 0\<rparr>,
            \<lparr>ctx_length = 3, p = 2, app_type = 0\<rparr>)"
    by code_simp
  have ok: "ctx_ok [0x30, 0x03, 0x06, 0x01, 0x2A] (asn1_context_new 0 (5 :: 64 word))"
    by (simp add: ctx_ok_def asn1_context_new_def)
  show ?thesis
    using run ok child_within_parent
      [of "[0x30, 0x03, 0x06, 0x01, 0x2A]" "asn1_context_new 0 (5 :: 64 word)"
          "\<lparr>ctx_length = 3, p = 2, app_type = 0\<rparr>" "\<lparr>ctx_length = 3, p = 2, app_type = 0\<rparr>"]
    by (simp add: asn1_context_new_def)
qed

text \<open>
  C1, as the code has it. A failed extraction does not put back what it has read: the
  context is left exactly \<open>header_octets_read\<close> bytes further, that is, past the tag
  byte when there is one, and past the octets of the length field that were read
  when the tag passed the extractor's test; the payload is not skipped. What is kept
  is the end of the context (position plus remaining count) and \<^verbatim>\<open>app_type\<close>; the
  position never moves back; and the context is unchanged exactly when it was empty.
\<close>

theorem failed_extraction_keeps_end_only:
  fixes ctx :: "'a::len asn1_context"
  shows "((asn1_constructed_get mem ctx = Inr (None, ctx')
        \<or> asn1_sequence_get mem ctx = Inr (None, ctx')
        \<or> asn1_set_get mem ctx = Inr (None, ctx')
        \<or> asn1_oid_get mem ctx = Inr (None, ctx')
        \<or> asn1_octet_string_get mem ctx = Inr (None, ctx')
        \<or> asn1_sequence_next mem ctx = Inr (0, ctx'))
       \<longrightarrow> p ctx \<le> p ctx'
         \<and> p ctx' + unat (ctx_length ctx') = p ctx + unat (ctx_length ctx)
         \<and> app_type ctx' = app_type ctx
         \<and> (ctx' = ctx \<longleftrightarrow> ctx_length ctx = 0))
       \<and> (asn1_constructed_get mem ctx = Inr (None, ctx') \<longrightarrow>
            ctx' = consumed (header_octets_read (\<lambda>t. t AND 0xE0 = 0xA0) mem ctx) ctx)
       \<and> (asn1_sequence_get mem ctx = Inr (None, ctx') \<longrightarrow>
            ctx' = consumed (header_octets_read (\<lambda>t. t AND 0x7F = 0x30) mem ctx) ctx)
       \<and> (asn1_set_get mem ctx = Inr (None, ctx') \<longrightarrow>
            ctx' = consumed (header_octets_read (\<lambda>t. t AND 0x7F = 0x31) mem ctx) ctx)
       \<and> (asn1_oid_get mem ctx = Inr (None, ctx') \<longrightarrow>
            ctx' = consumed (header_octets_read (\<lambda>t. t = 0x06) mem ctx) ctx)
       \<and> (asn1_octet_string_get mem ctx = Inr (None, ctx') \<longrightarrow>
            ctx' = consumed (header_octets_read (\<lambda>t. t = 0x04) mem ctx) ctx)
       \<and> (asn1_sequence_next mem ctx = Inr (0, ctx') \<longrightarrow>
            ctx' = consumed (header_octets_read (\<lambda>t. True) mem ctx) ctx)
       \<and> header_octets_read tag_ok mem ctx \<le> unat (ctx_length ctx)
       \<and> (header_octets_read tag_ok mem ctx = 0 \<longleftrightarrow> ctx_length ctx = 0)
       \<and> p (consumed k ctx) = p ctx + k
       \<and> (k \<le> unat (ctx_length ctx) \<longrightarrow>
            unat (ctx_length (consumed k ctx)) = unat (ctx_length ctx) - k)"
proof -
  have old: "p ctx \<le> p ctx'
         \<and> p ctx' + unat (ctx_length ctx') = p ctx + unat (ctx_length ctx)
         \<and> app_type ctx' = app_type ctx
         \<and> (ctx' = ctx \<longleftrightarrow> ctx_length ctx = 0)"
    if "asn1_constructed_get mem ctx = Inr (None, ctx')
        \<or> asn1_sequence_get mem ctx = Inr (None, ctx')
        \<or> asn1_set_get mem ctx = Inr (None, ctx')
        \<or> asn1_oid_get mem ctx = Inr (None, ctx')
        \<or> asn1_octet_string_get mem ctx = Inr (None, ctx')
        \<or> asn1_sequence_next mem ctx = Inr (0, ctx')"
  proof -
    from that obtain b ctx1 where "get_byte mem ctx = Inr (b, ctx1)" "ctx_advanced ctx1 ctx'"
      using constructed_get_tail sequence_get_tail set_get_tail oid_get_tail
        octet_string_get_tail sequence_next_tail by metis
    then have "ctx_advanced ctx ctx' \<and> (ctx' = ctx \<longleftrightarrow> ctx_length ctx = 0)"
      by (rule extractor_tail_advanced)
    then show ?thesis by (simp add: ctx_advanced_def)
  qed
  note pos = constructed_get_position [of mem ctx None ctx']
    sequence_get_position [of mem ctx None ctx'] set_get_position [of mem ctx None ctx']
    oid_get_position [of mem ctx None ctx'] octet_string_get_position [of mem ctx None ctx']
    sequence_next_position [of mem ctx ctx']
  note b = header_octets_read_bounds [of tag_ok mem ctx]
  have c: "p (consumed k ctx) = p ctx + k" by (rule consumed_fields)
  have d: "k \<le> unat (ctx_length ctx) \<longrightarrow>
            unat (ctx_length (consumed k ctx)) = unat (ctx_length ctx) - k"
    using unat_consumed by blast
  from old pos b c d show ?thesis by blast
qed

theorem failed_extraction_keeps_end_only_witness:
  "asn1_sequence_get [0x06, 0x01, 0x2A] (asn1_context_new 0 (3 :: 64 word))
     = Inr (None, \<lparr>ctx_length = 2, p = 1, app_type = 0\<rparr>)
   \<and> p (asn1_context_new 0 (3 :: 64 word)) \<le> p \<lparr>ctx_length = 2 :: 64 word, p = 1, app_type = 0\<rparr>
   \<and> p \<lparr>ctx_length = 2 :: 64 word, p = 1, app_type = 0\<rparr>
       + unat (ctx_length \<lparr>ctx_length = 2 :: 64 word, p = 1, app_type = 0\<rparr>)
     = p (asn1_context_new 0 (3 :: 64 word)) + unat (ctx_length (asn1_context_new 0 (3 :: 64 word)))
   \<and> ctx_length (asn1_context_new 0 (3 :: 64 word)) \<noteq> 0
   \<and> header_octets_read (\<lambda>t. t AND 0x7F = 0x30) [0x06, 0x01, 0x2A]
         (asn1_context_new 0 (3 :: 64 word)) = 1
   \<and> \<lparr>ctx_length = 2, p = 1, app_type = 0\<rparr> = consumed 1 (asn1_context_new 0 (3 :: 64 word))
   \<and> asn1_sequence_get [0x30, 0x82, 0x01] (asn1_context_new 0 (3 :: 64 word))
     = Inr (None, \<lparr>ctx_length = 0, p = 3, app_type = 0\<rparr>)
   \<and> header_octets_read (\<lambda>t. t AND 0x7F = 0x30) [0x30, 0x82, 0x01]
         (asn1_context_new 0 (3 :: 64 word)) = 3
   \<and> \<lparr>ctx_length = 0, p = 3, app_type = 0\<rparr> = consumed 3 (asn1_context_new 0 (3 :: 64 word))
   \<and> (3 :: nat) \<le> unat (ctx_length (asn1_context_new 0 (3 :: 64 word)))"
proof -
  have run: "asn1_sequence_get [0x06, 0x01, 0x2A] (asn1_context_new 0 (3 :: 64 word))
     = Inr (None, \<lparr>ctx_length = 2, p = 1, app_type = 0\<rparr>)"
    by code_simp
  have run2: "asn1_sequence_get [0x30, 0x82, 0x01] (asn1_context_new 0 (3 :: 64 word))
     = Inr (None, \<lparr>ctx_length = 0, p = 3, app_type = 0\<rparr>)"
    by code_simp
  have h1: "header_octets_read (\<lambda>t. t AND 0x7F = 0x30) [0x06, 0x01, 0x2A]
         (asn1_context_new 0 (3 :: 64 word)) = 1"
    by code_simp
  have h2: "header_octets_read (\<lambda>t. t AND 0x7F = 0x30) [0x30, 0x82, 0x01]
         (asn1_context_new 0 (3 :: 64 word)) = 3"
    by code_simp
  show ?thesis
    using run run2 h1 h2
      failed_extraction_keeps_end_only
        [of "[0x06, 0x01, 0x2A]" "asn1_context_new 0 (3 :: 64 word)"
            "\<lparr>ctx_length = 2, p = 1, app_type = 0\<rparr>" "\<lambda>t. t AND 0x7F = 0x30" 3]
      failed_extraction_keeps_end_only
        [of "[0x30, 0x82, 0x01]" "asn1_context_new 0 (3 :: 64 word)"
            "\<lparr>ctx_length = 0, p = 3, app_type = 0\<rparr>" "\<lambda>t. t AND 0x7F = 0x30" 3]
    by (simp add: asn1_context_new_def consumed_def)
qed

text \<open>
  C1, as stated, fails: \<^verbatim>\<open>asn1_sequence_get\<close> on the element 06 01 2A returns
  \<^verbatim>\<open>NULL\<close> and leaves the context one byte further; \<^verbatim>\<open>asn1_oid_get\<close>, which accepts
  the element at the original position, then rejects it.
\<close>

theorem failed_extraction_unchanged_counterexample:
  "asn1_sequence_get [0x06, 0x01, 0x2A] (asn1_context_new 0 (3 :: 64 word))
     = Inr (None, \<lparr>ctx_length = 2, p = 1, app_type = 0\<rparr>)
   \<and> \<lparr>ctx_length = 2, p = 1, app_type = 0\<rparr> \<noteq> asn1_context_new 0 (3 :: 64 word)
   \<and> asn1_oid_get [0x06, 0x01, 0x2A] (asn1_context_new 0 (3 :: 64 word))
     = Inr (Some (2, 1), \<lparr>ctx_length = 1, p = 2, app_type = 0\<rparr>)
   \<and> asn1_oid_get [0x06, 0x01, 0x2A] \<lparr>ctx_length = 2 :: 64 word, p = 1, app_type = 0\<rparr>
     = Inr (None, \<lparr>ctx_length = 1, p = 2, app_type = 0\<rparr>)"
proof -
  have "asn1_sequence_get [0x06, 0x01, 0x2A] (asn1_context_new 0 (3 :: 64 word))
     = Inr (None, \<lparr>ctx_length = 2, p = 1, app_type = 0\<rparr>)"
    by code_simp
  moreover have "\<lparr>ctx_length = 2, p = 1, app_type = 0\<rparr> \<noteq> asn1_context_new 0 (3 :: 64 word)"
    by (simp add: asn1_context_new_def)
  moreover have "asn1_oid_get [0x06, 0x01, 0x2A] (asn1_context_new 0 (3 :: 64 word))
     = Inr (Some (2, 1), \<lparr>ctx_length = 1, p = 2, app_type = 0\<rparr>)"
    by code_simp
  moreover have "asn1_oid_get [0x06, 0x01, 0x2A] \<lparr>ctx_length = 2 :: 64 word, p = 1, app_type = 0\<rparr>
     = Inr (None, \<lparr>ctx_length = 1, p = 2, app_type = 0\<rparr>)"
    by code_simp
  ultimately show ?thesis by simp
qed

text \<open>
  C4, as the code has it. On a non-empty well-formed context whose tag byte is followed
  by a length field that decodes to a length within the remaining count,
  \<^verbatim>\<open>asn1_constructed_get\<close> succeeds for the tag byte 0xA0 with application tag number
  0, and also for the tag byte 0xBF, with application tag number 31: 0xBF passes the
  test \<^verbatim>\<open>(type & 0xE0) == 0xA0\<close>. It returns \<^verbatim>\<open>NULL\<close> after the tag byte for every tag
  byte that does not pass that test.
\<close>

theorem constructed_get_tag_mask:
  fixes ctx :: "'a::len asn1_context"
  assumes "ctx_ok mem ctx" and "ctx_length ctx \<noteq> 0"
  shows "(decode_length mem (ctx\<lparr>p := p ctx + 1, ctx_length := ctx_length ctx - 1\<rparr>)
            = Inr (Some len, ctx2) \<and> len \<le> ctx_length ctx2 \<longrightarrow>
            (mem ! p ctx = 0xA0 \<longrightarrow>
               (\<exists>child. asn1_constructed_get mem ctx = Inr (Some child, ctx2)
                  \<and> asn1_constructed_type child = 0
                  \<and> p child = p ctx2 \<and> ctx_length child = len))
          \<and> (mem ! p ctx = 0xBF \<longrightarrow>
               (\<exists>child. asn1_constructed_get mem ctx = Inr (Some child, ctx2)
                  \<and> asn1_constructed_type child = 31
                  \<and> p child = p ctx2 \<and> ctx_length child = len)))
       \<and> (uint (mem ! p ctx) AND 0xE0 \<noteq> 0xA0 \<longrightarrow>
            asn1_constructed_get mem ctx
              = Inr (None, ctx\<lparr>p := p ctx + 1, ctx_length := ctx_length ctx - 1\<rparr>))"
proof -
  note g = get_byte_nonempty [OF assms]
  have a0: "uint (0xA0 :: byte) AND 0xE0 = 0xA0" "uint (0xA0 :: byte) AND 0x1F = 0"
    by simp_all
  have bf: "uint (0xBF :: byte) AND 0xE0 = 0xA0" "uint (0xBF :: byte) AND 0x1F = 31"
    by simp_all
  show ?thesis
    using a0 bf
    by (auto simp: asn1_constructed_get_def g uint_byte_not_minus1 asn1_context_new_def
        asn1_constructed_type_def not_less [symmetric])
qed


theorem constructed_get_tag_mask_witness:
  "ctx_ok [0xA0, 0x01, 0x05] (asn1_context_new 0 (3 :: 64 word))
   \<and> ctx_length (asn1_context_new 0 (3 :: 64 word)) \<noteq> 0
   \<and> decode_length [0xA0, 0x01, 0x05] \<lparr>ctx_length = 2 :: 64 word, p = 1, app_type = 0\<rparr>
       = Inr (Some 1, \<lparr>ctx_length = 1, p = 2, app_type = 0\<rparr>)
   \<and> (1 :: 64 word) \<le> ctx_length \<lparr>ctx_length = 1 :: 64 word, p = 2, app_type = 0\<rparr>
   \<and> [0xA0, 0x01, 0x05 :: byte] ! p (asn1_context_new 0 (3 :: 64 word)) = 0xA0
   \<and> (\<exists>child. asn1_constructed_get [0xA0, 0x01, 0x05] (asn1_context_new 0 (3 :: 64 word))
                  = Inr (Some child, \<lparr>ctx_length = 1, p = 2, app_type = 0\<rparr>)
          \<and> asn1_constructed_type child = 0 \<and> p child = 2 \<and> ctx_length child = 1)
   \<and> ctx_ok [0xBF, 0x00] (asn1_context_new 0 (2 :: 64 word))
   \<and> ctx_length (asn1_context_new 0 (2 :: 64 word)) \<noteq> 0
   \<and> decode_length [0xBF, 0x00] \<lparr>ctx_length = 1 :: 64 word, p = 1, app_type = 0\<rparr>
       = Inr (Some 0, \<lparr>ctx_length = 0, p = 2, app_type = 0\<rparr>)
   \<and> (0 :: 64 word) \<le> ctx_length \<lparr>ctx_length = 0 :: 64 word, p = 2, app_type = 0\<rparr>
   \<and> [0xBF, 0x00 :: byte] ! p (asn1_context_new 0 (2 :: 64 word)) = 0xBF
   \<and> (\<exists>child. asn1_constructed_get [0xBF, 0x00] (asn1_context_new 0 (2 :: 64 word))
                  = Inr (Some child, \<lparr>ctx_length = 0, p = 2, app_type = 0\<rparr>)
          \<and> asn1_constructed_type child = 31 \<and> p child = 2 \<and> ctx_length child = 0)
   \<and> ctx_ok [0x9F, 0x00] (asn1_context_new 0 (2 :: 64 word))
   \<and> uint ([0x9F, 0x00 :: byte] ! p (asn1_context_new 0 (2 :: 64 word))) AND 0xE0 \<noteq> 0xA0
   \<and> asn1_constructed_get [0x9F, 0x00] (asn1_context_new 0 (2 :: 64 word))
       = Inr (None, \<lparr>ctx_length = 1, p = 1, app_type = 0\<rparr>)"
proof -
  let ?A = "[0xA0, 0x01, 0x05 :: byte]" and ?B = "[0xBF, 0x00 :: byte]" and ?C = "[0x9F, 0x00 :: byte]"
  have okA: "ctx_ok ?A (asn1_context_new 0 (3 :: 64 word))"
    and okB: "ctx_ok ?B (asn1_context_new 0 (2 :: 64 word))"
    and okC: "ctx_ok ?C (asn1_context_new 0 (2 :: 64 word))"
    by (simp_all add: ctx_ok_def asn1_context_new_def)
  have neA: "ctx_length (asn1_context_new 0 (3 :: 64 word)) \<noteq> 0"
    and neB: "ctx_length (asn1_context_new 0 (2 :: 64 word)) \<noteq> 0"
    by (simp_all add: asn1_context_new_def)
  have dA: "decode_length ?A \<lparr>ctx_length = 2 :: 64 word, p = 1, app_type = 0\<rparr>
       = Inr (Some 1, \<lparr>ctx_length = 1, p = 2, app_type = 0\<rparr>)"
    by code_simp
  have dB: "decode_length ?B \<lparr>ctx_length = 1 :: 64 word, p = 1, app_type = 0\<rparr>
       = Inr (Some 0, \<lparr>ctx_length = 0, p = 2, app_type = 0\<rparr>)"
    by code_simp
  show ?thesis
    using okA okB okC neA neB dA dB
      constructed_get_tag_mask [OF okA neA, of 1 "\<lparr>ctx_length = 1, p = 2, app_type = 0\<rparr>"]
      constructed_get_tag_mask [OF okB neB, of 0 "\<lparr>ctx_length = 0, p = 2, app_type = 0\<rparr>"]
      constructed_get_tag_mask [OF okC neB]
    by (simp add: asn1_context_new_def)
qed

text \<open>
  C4, as stated, fails: on the buffer BF 00 \<^verbatim>\<open>asn1_constructed_get\<close> returns a child
  context, with application tag number 31.
\<close>

theorem constructed_get_0xBF_counterexample:
  "asn1_constructed_get [0xBF, 0x00] (asn1_context_new 0 (2 :: 64 word))
     = Inr (Some \<lparr>ctx_length = 0, p = 2, app_type = 31\<rparr>, \<lparr>ctx_length = 0, p = 2, app_type = 0\<rparr>)
   \<and> asn1_constructed_type \<lparr>ctx_length = 0 :: 64 word, p = 2, app_type = 31\<rparr> = 31
   \<and> (0xBF :: int) AND 0xE0 = 0xA0"
  by code_simp





subsection \<open>The two revisions\<close>

text \<open>
  C10, as the code has it. The two revisions are not equivalent, but they agree on
  their successes as follows, for contexts that stand for the same view (as those
  made by \<^verbatim>\<open>asn1_context_new\<close> from the same buffer and length do) and
  \<^verbatim>\<open>size_t\<close> at least one byte wide.

  From the counter revision to the pointer revision: when \<^verbatim>\<open>decode_length\<close> or an
  extractor of the counter revision succeeds, the one of the pointer revision
  succeeds too, with the same decoded length and end of the length field, a child
  context that stands for the same view (same position, same length, same
  \<^verbatim>\<open>app_type\<close>), the same leaf view, and after \<^verbatim>\<open>asn1_sequence_next\<close> a context that
  again stands for the same view.

  From the pointer revision to the counter revision: when the memory is shorter than
  half the range of \<^verbatim>\<open>size_t\<close> (so that the sum in the pointer revision's check does
  not wrap around), a success of its \<^verbatim>\<open>asn1_constructed_get\<close>, \<^verbatim>\<open>asn1_sequence_get\<close>,
  \<^verbatim>\<open>asn1_set_get\<close> or \<^verbatim>\<open>asn1_sequence_next\<close> is a success of the counter revision's,
  with the same child view and the same next position. A success of its
  \<^verbatim>\<open>decode_length\<close> is one of the counter revision's when the length field ends
  within the context, and a success of its \<^verbatim>\<open>asn1_oid_get\<close> or
  \<^verbatim>\<open>asn1_octet_string_get\<close> is one when the view it returns ends within the context.

  The pointer revision leaves the parent context as it was in every extractor but
  \<^verbatim>\<open>asn1_sequence_next\<close>.
\<close>

theorem revisions_agree_on_success:
  fixes ctx :: "'a::len asn1_context"
  assumes "8 \<le> LENGTH('a)" and "same_view ctx_ptr ctx"
  shows "(decode_length mem ctx = Inr (Some len, ctx') \<longrightarrow>
            decode_length_ptr mem (p ctx) = Inr (Some len, p ctx'))
       \<and> (asn1_constructed_get mem ctx = Inr (Some child, ctx') \<longrightarrow>
            (\<exists>child_ptr. asn1_constructed_get_ptr mem ctx_ptr = Inr (Some child_ptr, ctx_ptr)
               \<and> same_view child_ptr child \<and> buffer_ptr child_ptr = p child
               \<and> length_ptr child_ptr = ctx_length child))
       \<and> (asn1_sequence_get mem ctx = Inr (Some child, ctx') \<longrightarrow>
            (\<exists>child_ptr. asn1_sequence_get_ptr mem ctx_ptr = Inr (Some child_ptr, ctx_ptr)
               \<and> same_view child_ptr child \<and> buffer_ptr child_ptr = p child
               \<and> length_ptr child_ptr = ctx_length child))
       \<and> (asn1_set_get mem ctx = Inr (Some child, ctx') \<longrightarrow>
            (\<exists>child_ptr. asn1_set_get_ptr mem ctx_ptr = Inr (Some child_ptr, ctx_ptr)
               \<and> same_view child_ptr child \<and> buffer_ptr child_ptr = p child
               \<and> length_ptr child_ptr = ctx_length child))
       \<and> (asn1_sequence_next mem ctx = Inr (1, ctx') \<longrightarrow>
            (\<exists>ctx_ptr'. asn1_sequence_next_ptr mem ctx_ptr = Inr (1, ctx_ptr')
               \<and> same_view ctx_ptr' ctx'))
       \<and> (asn1_oid_get mem ctx = Inr (Some view, ctx') \<longrightarrow>
            asn1_oid_get_ptr mem ctx_ptr = Inr (Some view, ctx_ptr))
       \<and> (asn1_octet_string_get mem ctx = Inr (Some view, ctx') \<longrightarrow>
            asn1_octet_string_get_ptr mem ctx_ptr = Inr (Some view, ctx_ptr))
       \<and> same_view (asn1_context_new_ptr buffer n) (asn1_context_new buffer (n :: 'a word))
       \<and> (decode_length_ptr mem (p ctx) = Inr (Some len, q)
            \<and> q \<le> p ctx + unat (ctx_length ctx) \<longrightarrow>
            (\<exists>ctx''. decode_length mem ctx = Inr (Some len, ctx'') \<and> p ctx'' = q))
       \<and> (asn1_oid_get_ptr mem ctx_ptr = Inr (Some (q, len), ctx_ptr')
            \<and> q + unat len \<le> p ctx + unat (ctx_length ctx) \<longrightarrow>
            (\<exists>ctx''. asn1_oid_get mem ctx = Inr (Some (q, len), ctx'')))
       \<and> (asn1_octet_string_get_ptr mem ctx_ptr = Inr (Some (q, len), ctx_ptr')
            \<and> q + unat len \<le> p ctx + unat (ctx_length ctx) \<longrightarrow>
            (\<exists>ctx''. asn1_octet_string_get mem ctx = Inr (Some (q, len), ctx'')))
       \<and> (length mem < 2 ^ (LENGTH('a) - 1) \<longrightarrow>
            (asn1_constructed_get_ptr mem ctx_ptr = Inr (Some child_ptr, ctx_ptr') \<longrightarrow>
               ctx_ptr' = ctx_ptr
               \<and> (\<exists>child ctx''. asn1_constructed_get mem ctx = Inr (Some child, ctx'')
                      \<and> same_view child_ptr child \<and> buffer_ptr child_ptr = p child
                      \<and> length_ptr child_ptr = ctx_length child))
          \<and> (asn1_sequence_get_ptr mem ctx_ptr = Inr (Some child_ptr, ctx_ptr') \<longrightarrow>
               ctx_ptr' = ctx_ptr
               \<and> (\<exists>child ctx''. asn1_sequence_get mem ctx = Inr (Some child, ctx'')
                      \<and> same_view child_ptr child \<and> buffer_ptr child_ptr = p child
                      \<and> length_ptr child_ptr = ctx_length child))
          \<and> (asn1_set_get_ptr mem ctx_ptr = Inr (Some child_ptr, ctx_ptr') \<longrightarrow>
               ctx_ptr' = ctx_ptr
               \<and> (\<exists>child ctx''. asn1_set_get mem ctx = Inr (Some child, ctx'')
                      \<and> same_view child_ptr child \<and> buffer_ptr child_ptr = p child
                      \<and> length_ptr child_ptr = ctx_length child))
          \<and> (asn1_sequence_next_ptr mem ctx_ptr = Inr (1, ctx_ptr') \<longrightarrow>
               (\<exists>ctx''. asn1_sequence_next mem ctx = Inr (1, ctx'')
                      \<and> same_view ctx_ptr' ctx'')))"
proof -
  note w = assms(1) and sv = assms(2)
  let ?cp = "(asn1_context_new_ptr (p child) (ctx_length child))\<lparr>app_type_ptr := app_type child\<rparr>"
  have cp: "same_view ?cp child \<and> buffer_ptr ?cp = p child \<and> length_ptr ?cp = ctx_length child"
    by (simp add: same_view_child) (simp add: asn1_context_new_ptr_def)
  have cpc: "same_view ((asn1_context_new_ptr (p c) (ctx_length c))\<lparr>app_type_ptr := app_type c\<rparr>) c
      \<and> buffer_ptr ((asn1_context_new_ptr (p c) (ctx_length c))\<lparr>app_type_ptr := app_type c\<rparr>) = p c
      \<and> length_ptr ((asn1_context_new_ptr (p c) (ctx_length c))\<lparr>app_type_ptr := app_type c\<rparr>)
          = ctx_length c" for c :: "'a asn1_context"
    by (simp add: same_view_child) (simp add: asn1_context_new_ptr_def)
  have 1: "decode_length mem ctx = Inr (Some len, ctx') \<longrightarrow>
            decode_length_ptr mem (p ctx) = Inr (Some len, p ctx')"
    using decode_length_sim [OF w] by blast
  have 2: "asn1_constructed_get mem ctx = Inr (Some child, ctx') \<longrightarrow>
            (\<exists>child_ptr. asn1_constructed_get_ptr mem ctx_ptr = Inr (Some child_ptr, ctx_ptr)
               \<and> same_view child_ptr child \<and> buffer_ptr child_ptr = p child
               \<and> length_ptr child_ptr = ctx_length child)"
    using constructed_get_sim [OF assms] cp by blast
  have 3: "asn1_sequence_get mem ctx = Inr (Some child, ctx') \<longrightarrow>
            (\<exists>child_ptr. asn1_sequence_get_ptr mem ctx_ptr = Inr (Some child_ptr, ctx_ptr)
               \<and> same_view child_ptr child \<and> buffer_ptr child_ptr = p child
               \<and> length_ptr child_ptr = ctx_length child)"
    using sequence_get_sim [OF assms] cp by blast
  have 4: "asn1_set_get mem ctx = Inr (Some child, ctx') \<longrightarrow>
            (\<exists>child_ptr. asn1_set_get_ptr mem ctx_ptr = Inr (Some child_ptr, ctx_ptr)
               \<and> same_view child_ptr child \<and> buffer_ptr child_ptr = p child
               \<and> length_ptr child_ptr = ctx_length child)"
    using set_get_sim [OF assms] cp by blast
  have 5: "asn1_sequence_next mem ctx = Inr (1, ctx') \<longrightarrow>
            (\<exists>ctx_ptr'. asn1_sequence_next_ptr mem ctx_ptr = Inr (1, ctx_ptr')
               \<and> same_view ctx_ptr' ctx')"
    using sequence_next_sim [OF assms] by blast
  have 6: "asn1_oid_get mem ctx = Inr (Some view, ctx') \<longrightarrow>
            asn1_oid_get_ptr mem ctx_ptr = Inr (Some view, ctx_ptr)"
    using oid_get_sim [OF assms] by blast
  have 7: "asn1_octet_string_get mem ctx = Inr (Some view, ctx') \<longrightarrow>
            asn1_octet_string_get_ptr mem ctx_ptr = Inr (Some view, ctx_ptr)"
    using octet_string_get_sim [OF assms] by blast
  have 8: "same_view (asn1_context_new_ptr buffer n) (asn1_context_new buffer (n :: 'a word))"
    by (simp add: same_view_def asn1_context_new_ptr_def asn1_context_new_def)
  have 9: "decode_length_ptr mem (p ctx) = Inr (Some len, q)
            \<and> q \<le> p ctx + unat (ctx_length ctx) \<longrightarrow>
            (\<exists>ctx''. decode_length mem ctx = Inr (Some len, ctx'') \<and> p ctx'' = q)"
  proof
    assume a: "decode_length_ptr mem (p ctx) = Inr (Some len, q)
            \<and> q \<le> p ctx + unat (ctx_length ctx)"
    then have "decode_length mem ctx = Inr (Some len, consumed (q - p ctx) ctx) \<and> p ctx < q"
      using decode_length_ptr_sim [OF w] by blast
    moreover from this have "p (consumed (q - p ctx) ctx) = q" by (simp add: consumed_fields)
    ultimately show "\<exists>ctx''. decode_length mem ctx = Inr (Some len, ctx'') \<and> p ctx'' = q"
      by blast
  qed
  have 10: "asn1_oid_get_ptr mem ctx_ptr = Inr (Some (q, len), ctx_ptr')
            \<and> q + unat len \<le> p ctx + unat (ctx_length ctx) \<longrightarrow>
            (\<exists>ctx''. asn1_oid_get mem ctx = Inr (Some (q, len), ctx''))"
    using oid_get_ptr_sim [OF assms] by blast
  have 11: "asn1_octet_string_get_ptr mem ctx_ptr = Inr (Some (q, len), ctx_ptr')
            \<and> q + unat len \<le> p ctx + unat (ctx_length ctx) \<longrightarrow>
            (\<exists>ctx''. asn1_octet_string_get mem ctx = Inr (Some (q, len), ctx''))"
    using octet_string_get_ptr_sim [OF assms] by blast
  have 12: "ctx_ptr' = ctx_ptr
               \<and> (\<exists>child ctx''. asn1_constructed_get mem ctx = Inr (Some child, ctx'')
                      \<and> same_view child_ptr child \<and> buffer_ptr child_ptr = p child
                      \<and> length_ptr child_ptr = ctx_length child)"
    if small: "length mem < 2 ^ (LENGTH('a) - 1)"
      and r: "asn1_constructed_get_ptr mem ctx_ptr = Inr (Some child_ptr, ctx_ptr')"
  proof -
    from constructed_get_ptr_sim [OF w sv small r] obtain c ctx'' where
      c: "asn1_constructed_get mem ctx = Inr (Some c, ctx'')" by blast
    from constructed_get_sim [OF w sv c] r have
      "child_ptr = (asn1_context_new_ptr (p c) (ctx_length c))\<lparr>app_type_ptr := app_type c\<rparr>"
      "ctx_ptr' = ctx_ptr"
      by simp_all
    with c cpc [of c] show ?thesis by blast
  qed
  have 13: "ctx_ptr' = ctx_ptr
               \<and> (\<exists>child ctx''. asn1_sequence_get mem ctx = Inr (Some child, ctx'')
                      \<and> same_view child_ptr child \<and> buffer_ptr child_ptr = p child
                      \<and> length_ptr child_ptr = ctx_length child)"
    if small: "length mem < 2 ^ (LENGTH('a) - 1)"
      and r: "asn1_sequence_get_ptr mem ctx_ptr = Inr (Some child_ptr, ctx_ptr')"
  proof -
    from sequence_get_ptr_sim [OF w sv small r] obtain c ctx'' where
      c: "asn1_sequence_get mem ctx = Inr (Some c, ctx'')" by blast
    from sequence_get_sim [OF w sv c] r have
      "child_ptr = (asn1_context_new_ptr (p c) (ctx_length c))\<lparr>app_type_ptr := app_type c\<rparr>"
      "ctx_ptr' = ctx_ptr"
      by simp_all
    with c cpc [of c] show ?thesis by blast
  qed
  have 14: "ctx_ptr' = ctx_ptr
               \<and> (\<exists>child ctx''. asn1_set_get mem ctx = Inr (Some child, ctx'')
                      \<and> same_view child_ptr child \<and> buffer_ptr child_ptr = p child
                      \<and> length_ptr child_ptr = ctx_length child)"
    if small: "length mem < 2 ^ (LENGTH('a) - 1)"
      and r: "asn1_set_get_ptr mem ctx_ptr = Inr (Some child_ptr, ctx_ptr')"
  proof -
    from set_get_ptr_sim [OF w sv small r] obtain c ctx'' where
      c: "asn1_set_get mem ctx = Inr (Some c, ctx'')" by blast
    from set_get_sim [OF w sv c] r have
      "child_ptr = (asn1_context_new_ptr (p c) (ctx_length c))\<lparr>app_type_ptr := app_type c\<rparr>"
      "ctx_ptr' = ctx_ptr"
      by simp_all
    with c cpc [of c] show ?thesis by blast
  qed
  have 15: "\<exists>ctx''. asn1_sequence_next mem ctx = Inr (1, ctx'') \<and> same_view ctx_ptr' ctx''"
    if small: "length mem < 2 ^ (LENGTH('a) - 1)"
      and r: "asn1_sequence_next_ptr mem ctx_ptr = Inr (1, ctx_ptr')"
  proof -
    from sequence_next_ptr_sim [OF w sv small r] obtain ctx'' where
      c: "asn1_sequence_next mem ctx = Inr (1, ctx'')" by blast
    from sequence_next_sim [OF w sv c] r have
      "ctx_ptr' = ctx_ptr\<lparr>p_ptr := p ctx''\<rparr>" "same_view (ctx_ptr\<lparr>p_ptr := p ctx''\<rparr>) ctx''"
      by simp_all
    with c show ?thesis by blast
  qed
  from 12 13 14 15 have 16: "length mem < 2 ^ (LENGTH('a) - 1) \<longrightarrow>
            (asn1_constructed_get_ptr mem ctx_ptr = Inr (Some child_ptr, ctx_ptr') \<longrightarrow>
               ctx_ptr' = ctx_ptr
               \<and> (\<exists>child ctx''. asn1_constructed_get mem ctx = Inr (Some child, ctx'')
                      \<and> same_view child_ptr child \<and> buffer_ptr child_ptr = p child
                      \<and> length_ptr child_ptr = ctx_length child))
          \<and> (asn1_sequence_get_ptr mem ctx_ptr = Inr (Some child_ptr, ctx_ptr') \<longrightarrow>
               ctx_ptr' = ctx_ptr
               \<and> (\<exists>child ctx''. asn1_sequence_get mem ctx = Inr (Some child, ctx'')
                      \<and> same_view child_ptr child \<and> buffer_ptr child_ptr = p child
                      \<and> length_ptr child_ptr = ctx_length child))
          \<and> (asn1_set_get_ptr mem ctx_ptr = Inr (Some child_ptr, ctx_ptr') \<longrightarrow>
               ctx_ptr' = ctx_ptr
               \<and> (\<exists>child ctx''. asn1_set_get mem ctx = Inr (Some child, ctx'')
                      \<and> same_view child_ptr child \<and> buffer_ptr child_ptr = p child
                      \<and> length_ptr child_ptr = ctx_length child))
          \<and> (asn1_sequence_next_ptr mem ctx_ptr = Inr (1, ctx_ptr') \<longrightarrow>
               (\<exists>ctx''. asn1_sequence_next mem ctx = Inr (1, ctx'')
                      \<and> same_view ctx_ptr' ctx''))"
    by blast
  from 1 2 3 4 5 6 7 8 9 10 11 16 show ?thesis by (intro conjI)
qed


theorem revisions_agree_on_success_witness:
  "(8 \<le> LENGTH(64))
   \<and> (same_view (asn1_context_new_ptr 0 (5 :: 64 word)) (asn1_context_new 0 (5 :: 64 word)))
   \<and> (same_view (asn1_context_new_ptr 0 (3 :: 64 word)) (asn1_context_new 0 (3 :: 64 word)))
   \<and> (same_view (asn1_context_new_ptr 2 (3 :: 64 word)) (asn1_context_new 2 (3 :: 64 word)))
   \<and> (length ([0x30, 0x03, 0x06, 0x01, 0x2A] :: byte list) < 2 ^ (LENGTH(64) - 1))
   \<and> (asn1_sequence_get [0x30, 0x03, 0x06, 0x01, 0x2A] (asn1_context_new 0 (5 :: 64 word)) = Inr (Some \<lparr>ctx_length = 3 :: 64 word, p = 2, app_type = 0\<rparr>, \<lparr>ctx_length = 3 :: 64 word, p = 2, app_type = 0\<rparr>))
   \<and> (asn1_sequence_get_ptr [0x30, 0x03, 0x06, 0x01, 0x2A] (asn1_context_new_ptr 0 (5 :: 64 word)) = Inr (Some \<lparr>buffer_ptr = 2, length_ptr = 3 :: 64 word, app_type_ptr = 0, p_ptr = 2\<rparr>, asn1_context_new_ptr 0 (5 :: 64 word)))
   \<and> (\<exists>child_ptr. asn1_sequence_get_ptr [0x30, 0x03, 0x06, 0x01, 0x2A] (asn1_context_new_ptr 0 (5 :: 64 word)) = Inr (Some child_ptr, asn1_context_new_ptr 0 (5 :: 64 word))
       \<and> same_view child_ptr \<lparr>ctx_length = 3 :: 64 word, p = 2, app_type = 0\<rparr> \<and> buffer_ptr child_ptr = p \<lparr>ctx_length = 3 :: 64 word, p = 2, app_type = 0\<rparr>
       \<and> length_ptr child_ptr = ctx_length \<lparr>ctx_length = 3 :: 64 word, p = 2, app_type = 0\<rparr>)
   \<and> (asn1_context_new_ptr 0 (5 :: 64 word) = asn1_context_new_ptr 0 (5 :: 64 word)
       \<and> (\<exists>child ctx''. asn1_sequence_get [0x30, 0x03, 0x06, 0x01, 0x2A] (asn1_context_new 0 (5 :: 64 word)) = Inr (Some child, ctx'')
              \<and> same_view \<lparr>buffer_ptr = 2, length_ptr = 3 :: 64 word, app_type_ptr = 0, p_ptr = 2\<rparr> child \<and> buffer_ptr \<lparr>buffer_ptr = 2, length_ptr = 3 :: 64 word, app_type_ptr = 0, p_ptr = 2\<rparr> = p child
              \<and> length_ptr \<lparr>buffer_ptr = 2, length_ptr = 3 :: 64 word, app_type_ptr = 0, p_ptr = 2\<rparr> = ctx_length child))
   \<and> (length ([0xA5, 0x01, 0x05] :: byte list) < 2 ^ (LENGTH(64) - 1))
   \<and> (asn1_constructed_get [0xA5, 0x01, 0x05] (asn1_context_new 0 (3 :: 64 word)) = Inr (Some \<lparr>ctx_length = 1 :: 64 word, p = 2, app_type = 5\<rparr>, \<lparr>ctx_length = 1 :: 64 word, p = 2, app_type = 0\<rparr>))
   \<and> (asn1_constructed_get_ptr [0xA5, 0x01, 0x05] (asn1_context_new_ptr 0 (3 :: 64 word)) = Inr (Some \<lparr>buffer_ptr = 2, length_ptr = 1 :: 64 word, app_type_ptr = 5, p_ptr = 2\<rparr>, asn1_context_new_ptr 0 (3 :: 64 word)))
   \<and> (\<exists>child_ptr. asn1_constructed_get_ptr [0xA5, 0x01, 0x05] (asn1_context_new_ptr 0 (3 :: 64 word)) = Inr (Some child_ptr, asn1_context_new_ptr 0 (3 :: 64 word))
       \<and> same_view child_ptr \<lparr>ctx_length = 1 :: 64 word, p = 2, app_type = 5\<rparr> \<and> buffer_ptr child_ptr = p \<lparr>ctx_length = 1 :: 64 word, p = 2, app_type = 5\<rparr>
       \<and> length_ptr child_ptr = ctx_length \<lparr>ctx_length = 1 :: 64 word, p = 2, app_type = 5\<rparr>)
   \<and> (asn1_context_new_ptr 0 (3 :: 64 word) = asn1_context_new_ptr 0 (3 :: 64 word)
       \<and> (\<exists>child ctx''. asn1_constructed_get [0xA5, 0x01, 0x05] (asn1_context_new 0 (3 :: 64 word)) = Inr (Some child, ctx'')
              \<and> same_view \<lparr>buffer_ptr = 2, length_ptr = 1 :: 64 word, app_type_ptr = 5, p_ptr = 2\<rparr> child \<and> buffer_ptr \<lparr>buffer_ptr = 2, length_ptr = 1 :: 64 word, app_type_ptr = 5, p_ptr = 2\<rparr> = p child
              \<and> length_ptr \<lparr>buffer_ptr = 2, length_ptr = 1 :: 64 word, app_type_ptr = 5, p_ptr = 2\<rparr> = ctx_length child))
   \<and> (length ([0x31, 0x01, 0x05] :: byte list) < 2 ^ (LENGTH(64) - 1))
   \<and> (asn1_set_get [0x31, 0x01, 0x05] (asn1_context_new 0 (3 :: 64 word)) = Inr (Some \<lparr>ctx_length = 1 :: 64 word, p = 2, app_type = 0\<rparr>, \<lparr>ctx_length = 1 :: 64 word, p = 2, app_type = 0\<rparr>))
   \<and> (asn1_set_get_ptr [0x31, 0x01, 0x05] (asn1_context_new_ptr 0 (3 :: 64 word)) = Inr (Some \<lparr>buffer_ptr = 2, length_ptr = 1 :: 64 word, app_type_ptr = 0, p_ptr = 2\<rparr>, asn1_context_new_ptr 0 (3 :: 64 word)))
   \<and> (\<exists>child_ptr. asn1_set_get_ptr [0x31, 0x01, 0x05] (asn1_context_new_ptr 0 (3 :: 64 word)) = Inr (Some child_ptr, asn1_context_new_ptr 0 (3 :: 64 word))
       \<and> same_view child_ptr \<lparr>ctx_length = 1 :: 64 word, p = 2, app_type = 0\<rparr> \<and> buffer_ptr child_ptr = p \<lparr>ctx_length = 1 :: 64 word, p = 2, app_type = 0\<rparr>
       \<and> length_ptr child_ptr = ctx_length \<lparr>ctx_length = 1 :: 64 word, p = 2, app_type = 0\<rparr>)
   \<and> (asn1_context_new_ptr 0 (3 :: 64 word) = asn1_context_new_ptr 0 (3 :: 64 word)
       \<and> (\<exists>child ctx''. asn1_set_get [0x31, 0x01, 0x05] (asn1_context_new 0 (3 :: 64 word)) = Inr (Some child, ctx'')
              \<and> same_view \<lparr>buffer_ptr = 2, length_ptr = 1 :: 64 word, app_type_ptr = 0, p_ptr = 2\<rparr> child \<and> buffer_ptr \<lparr>buffer_ptr = 2, length_ptr = 1 :: 64 word, app_type_ptr = 0, p_ptr = 2\<rparr> = p child
              \<and> length_ptr \<lparr>buffer_ptr = 2, length_ptr = 1 :: 64 word, app_type_ptr = 0, p_ptr = 2\<rparr> = ctx_length child))
   \<and> (asn1_sequence_next [0x30, 0x03, 0x06, 0x01, 0x2A] (asn1_context_new 0 (5 :: 64 word)) = Inr (1, \<lparr>ctx_length = 0 :: 64 word, p = 5, app_type = 0\<rparr>))
   \<and> (asn1_sequence_next_ptr [0x30, 0x03, 0x06, 0x01, 0x2A] (asn1_context_new_ptr 0 (5 :: 64 word)) = Inr (1, \<lparr>buffer_ptr = 0, length_ptr = 5 :: 64 word, app_type_ptr = 0, p_ptr = 5\<rparr>))
   \<and> (\<exists>ctx_ptr'. asn1_sequence_next_ptr [0x30, 0x03, 0x06, 0x01, 0x2A] (asn1_context_new_ptr 0 (5 :: 64 word)) = Inr (1, ctx_ptr')
       \<and> same_view ctx_ptr' \<lparr>ctx_length = 0 :: 64 word, p = 5, app_type = 0\<rparr>)
   \<and> (\<exists>ctx''. asn1_sequence_next [0x30, 0x03, 0x06, 0x01, 0x2A] (asn1_context_new 0 (5 :: 64 word)) = Inr (1, ctx'')
       \<and> same_view \<lparr>buffer_ptr = 0, length_ptr = 5 :: 64 word, app_type_ptr = 0, p_ptr = 5\<rparr> ctx'')
   \<and> (asn1_oid_get [0x30, 0x03, 0x06, 0x01, 0x2A] (asn1_context_new 2 (3 :: 64 word)) = Inr (Some (4, 1), \<lparr>ctx_length = 1 :: 64 word, p = 4, app_type = 0\<rparr>))
   \<and> (4 + unat (1 :: 64 word) \<le> p (asn1_context_new 2 (3 :: 64 word)) + unat (ctx_length (asn1_context_new 2 (3 :: 64 word))))
   \<and> (asn1_oid_get_ptr [0x30, 0x03, 0x06, 0x01, 0x2A] (asn1_context_new_ptr 2 (3 :: 64 word)) = Inr (Some (4, 1), asn1_context_new_ptr 2 (3 :: 64 word)))
   \<and> (\<exists>ctx''. asn1_oid_get [0x30, 0x03, 0x06, 0x01, 0x2A] (asn1_context_new 2 (3 :: 64 word)) = Inr (Some (4, 1), ctx''))
   \<and> (asn1_octet_string_get [0x04, 0x01, 0xAA] (asn1_context_new 0 (3 :: 64 word)) = Inr (Some (2, 1), \<lparr>ctx_length = 1 :: 64 word, p = 2, app_type = 0\<rparr>))
   \<and> (2 + unat (1 :: 64 word) \<le> p (asn1_context_new 0 (3 :: 64 word)) + unat (ctx_length (asn1_context_new 0 (3 :: 64 word))))
   \<and> (asn1_octet_string_get_ptr [0x04, 0x01, 0xAA] (asn1_context_new_ptr 0 (3 :: 64 word)) = Inr (Some (2, 1), asn1_context_new_ptr 0 (3 :: 64 word)))
   \<and> (\<exists>ctx''. asn1_octet_string_get [0x04, 0x01, 0xAA] (asn1_context_new 0 (3 :: 64 word)) = Inr (Some (2, 1), ctx''))
   \<and> (decode_length [0x82, 0x01, 0x02] (asn1_context_new 0 (3 :: 64 word)) = Inr (Some 258, \<lparr>ctx_length = 0 :: 64 word, p = 3, app_type = 0\<rparr>))
   \<and> (decode_length_ptr [0x82, 0x01, 0x02] (p (asn1_context_new 0 (3 :: 64 word))) = Inr (Some (258 :: 64 word), p \<lparr>ctx_length = 0 :: 64 word, p = 3, app_type = 0\<rparr>))
   \<and> (decode_length_ptr [0x82, 0x01, 0x02] (p (asn1_context_new 0 (3 :: 64 word))) = Inr (Some (258 :: 64 word), 3))
   \<and> (3 \<le> p (asn1_context_new 0 (3 :: 64 word)) + unat (ctx_length (asn1_context_new 0 (3 :: 64 word))))
   \<and> (\<exists>ctx''. decode_length [0x82, 0x01, 0x02] (asn1_context_new 0 (3 :: 64 word)) = Inr (Some 258, ctx'') \<and> p ctx'' = 3)"
proof -
  note t = revisions_agree_on_success
  have w: "8 \<le> LENGTH(64)"
    by simp
  have sv5: "same_view (asn1_context_new_ptr 0 (5 :: 64 word)) (asn1_context_new 0 (5 :: 64 word))"
    by (simp add: same_view_def asn1_context_new_ptr_def asn1_context_new_def)
  have sv3: "same_view (asn1_context_new_ptr 0 (3 :: 64 word)) (asn1_context_new 0 (3 :: 64 word))"
    by (simp add: same_view_def asn1_context_new_ptr_def asn1_context_new_def)
  have sv23: "same_view (asn1_context_new_ptr 2 (3 :: 64 word)) (asn1_context_new 2 (3 :: 64 word))"
    by (simp add: same_view_def asn1_context_new_ptr_def asn1_context_new_def)
  have m1: "length ([0x30, 0x03, 0x06, 0x01, 0x2A] :: byte list) < 2 ^ (LENGTH(64) - 1)"
    by simp
  have r1: "asn1_sequence_get [0x30, 0x03, 0x06, 0x01, 0x2A] (asn1_context_new 0 (5 :: 64 word)) = Inr (Some \<lparr>ctx_length = 3 :: 64 word, p = 2, app_type = 0\<rparr>, \<lparr>ctx_length = 3 :: 64 word, p = 2, app_type = 0\<rparr>)"
    by code_simp
  have q1: "asn1_sequence_get_ptr [0x30, 0x03, 0x06, 0x01, 0x2A] (asn1_context_new_ptr 0 (5 :: 64 word)) = Inr (Some \<lparr>buffer_ptr = 2, length_ptr = 3 :: 64 word, app_type_ptr = 0, p_ptr = 2\<rparr>, asn1_context_new_ptr 0 (5 :: 64 word))"
    by code_simp
  have f1: "\<exists>child_ptr. asn1_sequence_get_ptr [0x30, 0x03, 0x06, 0x01, 0x2A] (asn1_context_new_ptr 0 (5 :: 64 word)) = Inr (Some child_ptr, asn1_context_new_ptr 0 (5 :: 64 word))
       \<and> same_view child_ptr \<lparr>ctx_length = 3 :: 64 word, p = 2, app_type = 0\<rparr> \<and> buffer_ptr child_ptr = p \<lparr>ctx_length = 3 :: 64 word, p = 2, app_type = 0\<rparr>
       \<and> length_ptr child_ptr = ctx_length \<lparr>ctx_length = 3 :: 64 word, p = 2, app_type = 0\<rparr>"
    by (rule t [OF w sv5, where mem = "[0x30, 0x03, 0x06, 0x01, 0x2A]" and ctx' = "\<lparr>ctx_length = 3 :: 64 word, p = 2, app_type = 0\<rparr>" and child = "\<lparr>ctx_length = 3 :: 64 word, p = 2, app_type = 0\<rparr>" and child_ptr = "\<lparr>buffer_ptr = 2, length_ptr = 3 :: 64 word, app_type_ptr = 0, p_ptr = 2\<rparr>" and ctx_ptr' = "asn1_context_new_ptr 0 (5 :: 64 word)", THEN conjunct2, THEN conjunct2, THEN conjunct1, THEN mp, OF r1])
  have c1: "asn1_context_new_ptr 0 (5 :: 64 word) = asn1_context_new_ptr 0 (5 :: 64 word)
       \<and> (\<exists>child ctx''. asn1_sequence_get [0x30, 0x03, 0x06, 0x01, 0x2A] (asn1_context_new 0 (5 :: 64 word)) = Inr (Some child, ctx'')
              \<and> same_view \<lparr>buffer_ptr = 2, length_ptr = 3 :: 64 word, app_type_ptr = 0, p_ptr = 2\<rparr> child \<and> buffer_ptr \<lparr>buffer_ptr = 2, length_ptr = 3 :: 64 word, app_type_ptr = 0, p_ptr = 2\<rparr> = p child
              \<and> length_ptr \<lparr>buffer_ptr = 2, length_ptr = 3 :: 64 word, app_type_ptr = 0, p_ptr = 2\<rparr> = ctx_length child)"
    by (rule t [OF w sv5, where mem = "[0x30, 0x03, 0x06, 0x01, 0x2A]" and ctx' = "\<lparr>ctx_length = 3 :: 64 word, p = 2, app_type = 0\<rparr>" and child = "\<lparr>ctx_length = 3 :: 64 word, p = 2, app_type = 0\<rparr>" and child_ptr = "\<lparr>buffer_ptr = 2, length_ptr = 3 :: 64 word, app_type_ptr = 0, p_ptr = 2\<rparr>" and ctx_ptr' = "asn1_context_new_ptr 0 (5 :: 64 word)", THEN conjunct2, THEN conjunct2, THEN conjunct2, THEN conjunct2, THEN conjunct2, THEN conjunct2, THEN conjunct2, THEN conjunct2, THEN conjunct2, THEN conjunct2, THEN conjunct2, THEN mp, OF m1, THEN conjunct2, THEN conjunct1, THEN mp, OF q1])
  have m5: "length ([0xA5, 0x01, 0x05] :: byte list) < 2 ^ (LENGTH(64) - 1)"
    by simp
  have r5: "asn1_constructed_get [0xA5, 0x01, 0x05] (asn1_context_new 0 (3 :: 64 word)) = Inr (Some \<lparr>ctx_length = 1 :: 64 word, p = 2, app_type = 5\<rparr>, \<lparr>ctx_length = 1 :: 64 word, p = 2, app_type = 0\<rparr>)"
    by code_simp
  have q5: "asn1_constructed_get_ptr [0xA5, 0x01, 0x05] (asn1_context_new_ptr 0 (3 :: 64 word)) = Inr (Some \<lparr>buffer_ptr = 2, length_ptr = 1 :: 64 word, app_type_ptr = 5, p_ptr = 2\<rparr>, asn1_context_new_ptr 0 (3 :: 64 word))"
    by code_simp
  have f5: "\<exists>child_ptr. asn1_constructed_get_ptr [0xA5, 0x01, 0x05] (asn1_context_new_ptr 0 (3 :: 64 word)) = Inr (Some child_ptr, asn1_context_new_ptr 0 (3 :: 64 word))
       \<and> same_view child_ptr \<lparr>ctx_length = 1 :: 64 word, p = 2, app_type = 5\<rparr> \<and> buffer_ptr child_ptr = p \<lparr>ctx_length = 1 :: 64 word, p = 2, app_type = 5\<rparr>
       \<and> length_ptr child_ptr = ctx_length \<lparr>ctx_length = 1 :: 64 word, p = 2, app_type = 5\<rparr>"
    by (rule t [OF w sv3, where mem = "[0xA5, 0x01, 0x05]" and ctx' = "\<lparr>ctx_length = 1 :: 64 word, p = 2, app_type = 0\<rparr>" and child = "\<lparr>ctx_length = 1 :: 64 word, p = 2, app_type = 5\<rparr>" and child_ptr = "\<lparr>buffer_ptr = 2, length_ptr = 1 :: 64 word, app_type_ptr = 5, p_ptr = 2\<rparr>" and ctx_ptr' = "asn1_context_new_ptr 0 (3 :: 64 word)", THEN conjunct2, THEN conjunct1, THEN mp, OF r5])
  have c5: "asn1_context_new_ptr 0 (3 :: 64 word) = asn1_context_new_ptr 0 (3 :: 64 word)
       \<and> (\<exists>child ctx''. asn1_constructed_get [0xA5, 0x01, 0x05] (asn1_context_new 0 (3 :: 64 word)) = Inr (Some child, ctx'')
              \<and> same_view \<lparr>buffer_ptr = 2, length_ptr = 1 :: 64 word, app_type_ptr = 5, p_ptr = 2\<rparr> child \<and> buffer_ptr \<lparr>buffer_ptr = 2, length_ptr = 1 :: 64 word, app_type_ptr = 5, p_ptr = 2\<rparr> = p child
              \<and> length_ptr \<lparr>buffer_ptr = 2, length_ptr = 1 :: 64 word, app_type_ptr = 5, p_ptr = 2\<rparr> = ctx_length child)"
    by (rule t [OF w sv3, where mem = "[0xA5, 0x01, 0x05]" and ctx' = "\<lparr>ctx_length = 1 :: 64 word, p = 2, app_type = 0\<rparr>" and child = "\<lparr>ctx_length = 1 :: 64 word, p = 2, app_type = 5\<rparr>" and child_ptr = "\<lparr>buffer_ptr = 2, length_ptr = 1 :: 64 word, app_type_ptr = 5, p_ptr = 2\<rparr>" and ctx_ptr' = "asn1_context_new_ptr 0 (3 :: 64 word)", THEN conjunct2, THEN conjunct2, THEN conjunct2, THEN conjunct2, THEN conjunct2, THEN conjunct2, THEN conjunct2, THEN conjunct2, THEN conjunct2, THEN conjunct2, THEN conjunct2, THEN mp, OF m5, THEN conjunct1, THEN mp, OF q5])
  have m6: "length ([0x31, 0x01, 0x05] :: byte list) < 2 ^ (LENGTH(64) - 1)"
    by simp
  have r6: "asn1_set_get [0x31, 0x01, 0x05] (asn1_context_new 0 (3 :: 64 word)) = Inr (Some \<lparr>ctx_length = 1 :: 64 word, p = 2, app_type = 0\<rparr>, \<lparr>ctx_length = 1 :: 64 word, p = 2, app_type = 0\<rparr>)"
    by code_simp
  have q6: "asn1_set_get_ptr [0x31, 0x01, 0x05] (asn1_context_new_ptr 0 (3 :: 64 word)) = Inr (Some \<lparr>buffer_ptr = 2, length_ptr = 1 :: 64 word, app_type_ptr = 0, p_ptr = 2\<rparr>, asn1_context_new_ptr 0 (3 :: 64 word))"
    by code_simp
  have f6: "\<exists>child_ptr. asn1_set_get_ptr [0x31, 0x01, 0x05] (asn1_context_new_ptr 0 (3 :: 64 word)) = Inr (Some child_ptr, asn1_context_new_ptr 0 (3 :: 64 word))
       \<and> same_view child_ptr \<lparr>ctx_length = 1 :: 64 word, p = 2, app_type = 0\<rparr> \<and> buffer_ptr child_ptr = p \<lparr>ctx_length = 1 :: 64 word, p = 2, app_type = 0\<rparr>
       \<and> length_ptr child_ptr = ctx_length \<lparr>ctx_length = 1 :: 64 word, p = 2, app_type = 0\<rparr>"
    by (rule t [OF w sv3, where mem = "[0x31, 0x01, 0x05]" and ctx' = "\<lparr>ctx_length = 1 :: 64 word, p = 2, app_type = 0\<rparr>" and child = "\<lparr>ctx_length = 1 :: 64 word, p = 2, app_type = 0\<rparr>" and child_ptr = "\<lparr>buffer_ptr = 2, length_ptr = 1 :: 64 word, app_type_ptr = 0, p_ptr = 2\<rparr>" and ctx_ptr' = "asn1_context_new_ptr 0 (3 :: 64 word)", THEN conjunct2, THEN conjunct2, THEN conjunct2, THEN conjunct1, THEN mp, OF r6])
  have c6: "asn1_context_new_ptr 0 (3 :: 64 word) = asn1_context_new_ptr 0 (3 :: 64 word)
       \<and> (\<exists>child ctx''. asn1_set_get [0x31, 0x01, 0x05] (asn1_context_new 0 (3 :: 64 word)) = Inr (Some child, ctx'')
              \<and> same_view \<lparr>buffer_ptr = 2, length_ptr = 1 :: 64 word, app_type_ptr = 0, p_ptr = 2\<rparr> child \<and> buffer_ptr \<lparr>buffer_ptr = 2, length_ptr = 1 :: 64 word, app_type_ptr = 0, p_ptr = 2\<rparr> = p child
              \<and> length_ptr \<lparr>buffer_ptr = 2, length_ptr = 1 :: 64 word, app_type_ptr = 0, p_ptr = 2\<rparr> = ctx_length child)"
    by (rule t [OF w sv3, where mem = "[0x31, 0x01, 0x05]" and ctx' = "\<lparr>ctx_length = 1 :: 64 word, p = 2, app_type = 0\<rparr>" and child = "\<lparr>ctx_length = 1 :: 64 word, p = 2, app_type = 0\<rparr>" and child_ptr = "\<lparr>buffer_ptr = 2, length_ptr = 1 :: 64 word, app_type_ptr = 0, p_ptr = 2\<rparr>" and ctx_ptr' = "asn1_context_new_ptr 0 (3 :: 64 word)", THEN conjunct2, THEN conjunct2, THEN conjunct2, THEN conjunct2, THEN conjunct2, THEN conjunct2, THEN conjunct2, THEN conjunct2, THEN conjunct2, THEN conjunct2, THEN conjunct2, THEN mp, OF m6, THEN conjunct2, THEN conjunct2, THEN conjunct1, THEN mp, OF q6])
  have r2: "asn1_sequence_next [0x30, 0x03, 0x06, 0x01, 0x2A] (asn1_context_new 0 (5 :: 64 word)) = Inr (1, \<lparr>ctx_length = 0 :: 64 word, p = 5, app_type = 0\<rparr>)"
    by code_simp
  have q2: "asn1_sequence_next_ptr [0x30, 0x03, 0x06, 0x01, 0x2A] (asn1_context_new_ptr 0 (5 :: 64 word)) = Inr (1, \<lparr>buffer_ptr = 0, length_ptr = 5 :: 64 word, app_type_ptr = 0, p_ptr = 5\<rparr>)"
    by code_simp
  have f2: "\<exists>ctx_ptr'. asn1_sequence_next_ptr [0x30, 0x03, 0x06, 0x01, 0x2A] (asn1_context_new_ptr 0 (5 :: 64 word)) = Inr (1, ctx_ptr')
       \<and> same_view ctx_ptr' \<lparr>ctx_length = 0 :: 64 word, p = 5, app_type = 0\<rparr>"
    by (rule t [OF w sv5, where mem = "[0x30, 0x03, 0x06, 0x01, 0x2A]" and ctx' = "\<lparr>ctx_length = 0 :: 64 word, p = 5, app_type = 0\<rparr>" and ctx_ptr' = "\<lparr>buffer_ptr = 0, length_ptr = 5 :: 64 word, app_type_ptr = 0, p_ptr = 5\<rparr>", THEN conjunct2, THEN conjunct2, THEN conjunct2, THEN conjunct2, THEN conjunct1, THEN mp, OF r2])
  have c2: "\<exists>ctx''. asn1_sequence_next [0x30, 0x03, 0x06, 0x01, 0x2A] (asn1_context_new 0 (5 :: 64 word)) = Inr (1, ctx'')
       \<and> same_view \<lparr>buffer_ptr = 0, length_ptr = 5 :: 64 word, app_type_ptr = 0, p_ptr = 5\<rparr> ctx''"
    by (rule t [OF w sv5, where mem = "[0x30, 0x03, 0x06, 0x01, 0x2A]" and ctx' = "\<lparr>ctx_length = 0 :: 64 word, p = 5, app_type = 0\<rparr>" and ctx_ptr' = "\<lparr>buffer_ptr = 0, length_ptr = 5 :: 64 word, app_type_ptr = 0, p_ptr = 5\<rparr>", THEN conjunct2, THEN conjunct2, THEN conjunct2, THEN conjunct2, THEN conjunct2, THEN conjunct2, THEN conjunct2, THEN conjunct2, THEN conjunct2, THEN conjunct2, THEN conjunct2, THEN mp, OF m1, THEN conjunct2, THEN conjunct2, THEN conjunct2, THEN mp, OF q2])
  have r3: "asn1_oid_get [0x30, 0x03, 0x06, 0x01, 0x2A] (asn1_context_new 2 (3 :: 64 word)) = Inr (Some (4, 1), \<lparr>ctx_length = 1 :: 64 word, p = 4, app_type = 0\<rparr>)"
    by code_simp
  have b3: "4 + unat (1 :: 64 word) \<le> p (asn1_context_new 2 (3 :: 64 word)) + unat (ctx_length (asn1_context_new 2 (3 :: 64 word)))"
    by (simp add: asn1_context_new_def)
  have f3: "asn1_oid_get_ptr [0x30, 0x03, 0x06, 0x01, 0x2A] (asn1_context_new_ptr 2 (3 :: 64 word)) = Inr (Some (4, 1), asn1_context_new_ptr 2 (3 :: 64 word))"
    by (rule t [OF w sv23, where mem = "[0x30, 0x03, 0x06, 0x01, 0x2A]" and ctx' = "\<lparr>ctx_length = 1 :: 64 word, p = 4, app_type = 0\<rparr>" and view = "(4, 1)" and q = 4 and len = 1 and ctx_ptr' = "asn1_context_new_ptr 2 (3 :: 64 word)", THEN conjunct2, THEN conjunct2, THEN conjunct2, THEN conjunct2, THEN conjunct2, THEN conjunct1, THEN mp, OF r3])
  have c3: "\<exists>ctx''. asn1_oid_get [0x30, 0x03, 0x06, 0x01, 0x2A] (asn1_context_new 2 (3 :: 64 word)) = Inr (Some (4, 1), ctx'')"
    by (rule t [OF w sv23, where mem = "[0x30, 0x03, 0x06, 0x01, 0x2A]" and ctx' = "\<lparr>ctx_length = 1 :: 64 word, p = 4, app_type = 0\<rparr>" and view = "(4, 1)" and q = 4 and len = 1 and ctx_ptr' = "asn1_context_new_ptr 2 (3 :: 64 word)", THEN conjunct2, THEN conjunct2, THEN conjunct2, THEN conjunct2, THEN conjunct2, THEN conjunct2, THEN conjunct2, THEN conjunct2, THEN conjunct2, THEN conjunct1, THEN mp, OF conjI [OF f3 b3]])
  have r7: "asn1_octet_string_get [0x04, 0x01, 0xAA] (asn1_context_new 0 (3 :: 64 word)) = Inr (Some (2, 1), \<lparr>ctx_length = 1 :: 64 word, p = 2, app_type = 0\<rparr>)"
    by code_simp
  have b7: "2 + unat (1 :: 64 word) \<le> p (asn1_context_new 0 (3 :: 64 word)) + unat (ctx_length (asn1_context_new 0 (3 :: 64 word)))"
    by (simp add: asn1_context_new_def)
  have f7: "asn1_octet_string_get_ptr [0x04, 0x01, 0xAA] (asn1_context_new_ptr 0 (3 :: 64 word)) = Inr (Some (2, 1), asn1_context_new_ptr 0 (3 :: 64 word))"
    by (rule t [OF w sv3, where mem = "[0x04, 0x01, 0xAA]" and ctx' = "\<lparr>ctx_length = 1 :: 64 word, p = 2, app_type = 0\<rparr>" and view = "(2, 1)" and q = 2 and len = 1 and ctx_ptr' = "asn1_context_new_ptr 0 (3 :: 64 word)", THEN conjunct2, THEN conjunct2, THEN conjunct2, THEN conjunct2, THEN conjunct2, THEN conjunct2, THEN conjunct1, THEN mp, OF r7])
  have c7: "\<exists>ctx''. asn1_octet_string_get [0x04, 0x01, 0xAA] (asn1_context_new 0 (3 :: 64 word)) = Inr (Some (2, 1), ctx'')"
    by (rule t [OF w sv3, where mem = "[0x04, 0x01, 0xAA]" and ctx' = "\<lparr>ctx_length = 1 :: 64 word, p = 2, app_type = 0\<rparr>" and view = "(2, 1)" and q = 2 and len = 1 and ctx_ptr' = "asn1_context_new_ptr 0 (3 :: 64 word)", THEN conjunct2, THEN conjunct2, THEN conjunct2, THEN conjunct2, THEN conjunct2, THEN conjunct2, THEN conjunct2, THEN conjunct2, THEN conjunct2, THEN conjunct2, THEN conjunct1, THEN mp, OF conjI [OF f7 b7]])
  have r4: "decode_length [0x82, 0x01, 0x02] (asn1_context_new 0 (3 :: 64 word)) = Inr (Some 258, \<lparr>ctx_length = 0 :: 64 word, p = 3, app_type = 0\<rparr>)"
    by code_simp
  have f4: "decode_length_ptr [0x82, 0x01, 0x02] (p (asn1_context_new 0 (3 :: 64 word))) = Inr (Some (258 :: 64 word), p \<lparr>ctx_length = 0 :: 64 word, p = 3, app_type = 0\<rparr>)"
    by (rule t [OF w sv3, where mem = "[0x82, 0x01, 0x02]" and len = 258 and q = 3 and ctx' = "\<lparr>ctx_length = 0 :: 64 word, p = 3, app_type = 0\<rparr>", THEN conjunct1, THEN mp, OF r4])
  have q4: "decode_length_ptr [0x82, 0x01, 0x02] (p (asn1_context_new 0 (3 :: 64 word))) = Inr (Some (258 :: 64 word), 3)"
    by code_simp
  have b4: "3 \<le> p (asn1_context_new 0 (3 :: 64 word)) + unat (ctx_length (asn1_context_new 0 (3 :: 64 word)))"
    by (simp add: asn1_context_new_def)
  have c4: "\<exists>ctx''. decode_length [0x82, 0x01, 0x02] (asn1_context_new 0 (3 :: 64 word)) = Inr (Some 258, ctx'') \<and> p ctx'' = 3"
    by (rule t [OF w sv3, where mem = "[0x82, 0x01, 0x02]" and len = 258 and q = 3 and ctx' = "\<lparr>ctx_length = 0 :: 64 word, p = 3, app_type = 0\<rparr>", THEN conjunct2, THEN conjunct2, THEN conjunct2, THEN conjunct2, THEN conjunct2, THEN conjunct2, THEN conjunct2, THEN conjunct2, THEN conjunct1, THEN mp, OF conjI [OF q4 b4]])
  show ?thesis
    by (rule conjI [OF w 
      conjI [OF sv5 
      conjI [OF sv3 
      conjI [OF sv23 
      conjI [OF m1 
      conjI [OF r1 
      conjI [OF q1 
      conjI [OF f1 
      conjI [OF c1 
      conjI [OF m5 
      conjI [OF r5 
      conjI [OF q5 
      conjI [OF f5 
      conjI [OF c5 
      conjI [OF m6 
      conjI [OF r6 
      conjI [OF q6 
      conjI [OF f6 
      conjI [OF c6 
      conjI [OF r2 
      conjI [OF q2 
      conjI [OF f2 
      conjI [OF c2 
      conjI [OF r3 
      conjI [OF b3 
      conjI [OF f3 
      conjI [OF c3 
      conjI [OF r7 
      conjI [OF b7 
      conjI [OF f7 
      conjI [OF c7 
      conjI [OF r4 
      conjI [OF f4 
      conjI [OF q4 
      conjI [OF b4 
      c4]]]]]]]]]]]]]]]]]]]]]]]]]]]]]]]]]]])
qed

text \<open>
  C10, as stated, fails. On the buffer 06 05 2A the counter revision's
  \<^verbatim>\<open>asn1_oid_get\<close> returns 0 (length 5 with one byte left) and the pointer revision's
  returns 1 with length 5, which it never compares with the buffer's length. On the
  buffer 30 03 06 01 2A both \<^verbatim>\<open>asn1_sequence_get\<close> succeed with the same child, and
  the parent is left after the header in the counter revision, at its start in the
  pointer revision.
\<close>

theorem revisions_differ_counterexample:
  "asn1_oid_get [0x06, 0x05, 0x2A] (asn1_context_new 0 (3 :: 64 word))
     = Inr (None, \<lparr>ctx_length = 1, p = 2, app_type = 0\<rparr>)
   \<and> asn1_oid_get_ptr [0x06, 0x05, 0x2A] (asn1_context_new_ptr 0 (3 :: 64 word))
     = Inr (Some (2, 5), \<lparr>buffer_ptr = 0, length_ptr = 3, app_type_ptr = 0, p_ptr = 0\<rparr>)
   \<and> asn1_sequence_get [0x30, 0x03, 0x06, 0x01, 0x2A] (asn1_context_new 0 (5 :: 64 word))
     = Inr (Some \<lparr>ctx_length = 3, p = 2, app_type = 0\<rparr>,
            \<lparr>ctx_length = 3, p = 2, app_type = 0\<rparr>)
   \<and> asn1_sequence_get_ptr [0x30, 0x03, 0x06, 0x01, 0x2A] (asn1_context_new_ptr 0 (5 :: 64 word))
     = Inr (Some \<lparr>buffer_ptr = 2, length_ptr = 3, app_type_ptr = 0, p_ptr = 2\<rparr>,
            \<lparr>buffer_ptr = 0, length_ptr = 5, app_type_ptr = 0, p_ptr = 0\<rparr>)"
  by code_simp

end
